theory Spec2Isabelle
  imports Complex_Main "HOL-Library.Word" "HOL-Library.Multiset"
begin

section \<open>Tokens: the C strings of the argument vector\<close>

text \<open>
  A token is one \<open>char*\<close> of \<open>argv\<close>, modelled by the characters in front of its
  terminating NUL.  \<open>c_at s i\<close> is the C expression \<open>s[i]\<close> for an index up to the
  terminator; \<open>cstring\<close> says that the list really is what a C string can hold
  (no NUL inside).
\<close>

type_synonym token = string

definition c_at :: "token \<Rightarrow> nat \<Rightarrow> char" where
  "c_at s i = (if i < length s then s ! i else CHR 0x00)"

definition cstring :: "token \<Rightarrow> bool" where
  "cstring s = (CHR 0x00 \<notin> set s)"

section \<open>Outcomes of a call\<close>

text \<open>
  A call either returns, or stops the process in \<open>CLI_ASSERT\<close> (the default
  \<open>assert\<close>), or leaves defined behaviour (a write outside the allocated block,
  a read of a slot that was never written, a dereferenced null pointer).
\<close>

datatype 'a outcome = Returns 'a | AssertFailed | Undefined

definition obind :: "'a outcome \<Rightarrow> ('a \<Rightarrow> 'b outcome) \<Rightarrow> 'b outcome" where
  "obind m f = (case m of Returns x \<Rightarrow> f x | AssertFailed \<Rightarrow> AssertFailed | Undefined \<Rightarrow> Undefined)"

section \<open>The allocator\<close>

text \<open>
  \<open>CLI_MALLOC\<close> and \<open>CLI_REALLOC\<close> may fail.  The allocator state lists the
  outcomes of the coming calls (\<open>True\<close>: the call succeeds; past the end of the list
  every call succeeds) and counts the calls of \<open>CLI_REALLOC\<close> made so far.
  A block is the list of its slots; a slot that was never written is \<open>None\<close>.
\<close>

type_synonym buffer = "token option list"

record allocator =
  plan :: "bool list"
  reallocs :: nat

definition alloc_ok :: "allocator \<Rightarrow> bool" where
  "alloc_ok h = (case plan h of [] \<Rightarrow> True | ok # _ \<Rightarrow> ok)"

definition alloc_next :: "allocator \<Rightarrow> allocator" where
  "alloc_next h = h\<lparr>plan := tl (plan h)\<rparr>"

definition CLI_MALLOC :: "nat \<Rightarrow> allocator \<Rightarrow> buffer option \<times> allocator" where
  "CLI_MALLOC n h = ((if alloc_ok h then Some (replicate n None) else None), alloc_next h)"

definition CLI_REALLOC :: "buffer option \<Rightarrow> nat \<Rightarrow> allocator \<Rightarrow> buffer option \<times> allocator" where
  "CLI_REALLOC p n h =
     ((if alloc_ok h
       then Some (case p of None \<Rightarrow> replicate n None
                  | Some b \<Rightarrow> take n b @ replicate (n - length b) None)
       else None),
      (alloc_next h)\<lparr>reallocs := Suc (reallocs h)\<rparr>)"

section \<open>The heap-backed container (the build without \<open>CLI_NOHEAP\<close>)\<close>

text \<open>
  \<open>struct CliArray\<close>: both counters are \<open>unsigned short\<close>, 16 bits wide;
  \<open>data\<close> is the block, \<open>None\<close> for a null pointer.
\<close>

record CliArray =
  length_f :: "16 word"
  capacity :: "16 word"
  data :: "buffer option"

text \<open>
  The macro \<open>cli_da_init\<close>; \<open>C0\<close> is \<open>CLI_DEFAULT_ARR_CAP\<close> (5 unless the
  including program defines it).
\<close>

definition CLI_DEFAULT_ARR_CAP :: nat where
  "CLI_DEFAULT_ARR_CAP = 5"

definition cli_da_init :: "nat \<Rightarrow> allocator \<Rightarrow> CliArray \<times> allocator" where
  "cli_da_init C0 h =
     (let (p, h') = CLI_MALLOC C0 h
      in (\<lparr>length_f = 0, capacity = of_nat C0, data = p\<rparr>, h'))"

text \<open>
  The macro \<open>cli_da_append\<close>: the length is incremented first (16 bits, so it
  wraps), the block is reallocated to twice the capacity (16 bits again) when the new
  length exceeds the capacity, a failed reallocation ends in \<open>CLI_ASSERT(0)\<close>,
  and the item is written at index \<open>length - 1\<close>.
\<close>

definition cli_da_append :: "CliArray \<Rightarrow> token \<Rightarrow> allocator \<Rightarrow> (CliArray \<times> allocator) outcome" where
  "cli_da_append a item h =
     (let len = length_f a + 1 in
      obind
        (if len > capacity a then
           (let cap = capacity a * 2;
                (p, h') = CLI_REALLOC (data a) (unat cap) h
            in if p = None then AssertFailed
               else Returns (a\<lparr>length_f := len, capacity := cap, data := p\<rparr>, h'))
         else Returns (a\<lparr>length_f := len\<rparr>, h))
        (\<lambda>(a', h').
           case data a' of
             None \<Rightarrow> Undefined
           | Some b \<Rightarrow>
               if len = 0 \<or> length b \<le> unat len - 1 then Undefined
               else Returns (a'\<lparr>data := Some (b[unat len - 1 := Some item])\<rparr>, h')))"

text \<open>Reading \<open>data[i]\<close>; \<open>None\<close> when the read is not defined.\<close>

definition da_read :: "CliArray \<Rightarrow> nat \<Rightarrow> token option" where
  "da_read a i = (case data a of None \<Rightarrow> None
                  | Some b \<Rightarrow> if i < length b then b ! i else None)"

section \<open>The aggregate and the classifier\<close>

record Cli =
  execfile :: "token option"
  args :: CliArray
  cmd_options :: CliArray
  program_options :: CliArray

datatype CliError = CliErrorOk | CliErrorUser | CliErrorFatal

text \<open>
  What \<open>cli_parse\<close> prints on \<open>stderr\<close>, by message, with the arguments of the
  format: the double dash after a positional argument (the token and
  \<open>args.data[args.length - 1]\<close>), the positional argument after a command option
  (the token), and the three allocation failures of the prologue.
\<close>

datatype diag =
    DoubleDashAfterPositional token token
  | PositionalAfterCmdOption token
  | MemoryError string

record world =
  cli :: Cli
  alloc :: allocator
  stderr :: "diag list"

text \<open>\<open>cli_pop_argv\<close>: asserts that a token is left and takes the first.\<close>

definition cli_pop_argv :: "token list \<Rightarrow> (token \<times> token list) outcome" where
  "cli_pop_argv argv = (case argv of [] \<Rightarrow> AssertFailed | x # xs \<Rightarrow> Returns (x, xs))"

text \<open>
  One pass of the \<open>while\<close> loop of \<open>cli_parse\<close> on the popped token: the loop
  goes on with the new value of \<open>is_cmd_option\<close>, or the function returns.
\<close>

datatype step = Continue bool world | Stop CliError world

definition cli_parse_step :: "token \<Rightarrow> bool \<Rightarrow> world \<Rightarrow> step outcome" where
  "cli_parse_step arg is_cmd_option w =
     (if c_at arg 0 = CHR ''-'' then
        (if c_at arg 1 = CHR ''-'' \<and> c_at arg 2 = CHR 0x00 then
           (if length_f (args (cli w)) > 0 then
              (case da_read (args (cli w)) (unat (length_f (args (cli w))) - 1) of
                 None \<Rightarrow> Undefined
               | Some p \<Rightarrow>
                   Returns (Stop CliErrorUser
                     (w\<lparr>stderr := stderr w @ [DoubleDashAfterPositional arg p]\<rparr>)))
            else Returns (Continue True w))
         else
           (if is_cmd_option then
              obind (cli_da_append (cmd_options (cli w)) arg (alloc w))
                (\<lambda>(a, h). Returns (Continue is_cmd_option
                   (w\<lparr>cli := (cli w)\<lparr>cmd_options := a\<rparr>, alloc := h\<rparr>)))
            else
              obind (cli_da_append (program_options (cli w)) arg (alloc w))
                (\<lambda>(a, h). Returns (Continue is_cmd_option
                   (w\<lparr>cli := (cli w)\<lparr>program_options := a\<rparr>, alloc := h\<rparr>)))))
      else
        (if length_f (cmd_options (cli w)) > 0 then
           Returns (Stop CliErrorUser
             (w\<lparr>stderr := stderr w @ [PositionalAfterCmdOption arg]\<rparr>))
         else
           obind (cli_da_append (args (cli w)) arg (alloc w))
             (\<lambda>(a, h). Returns (Continue True
                (w\<lparr>cli := (cli w)\<lparr>args := a\<rparr>, alloc := h\<rparr>)))))"

fun cli_parse_loop :: "token list \<Rightarrow> bool \<Rightarrow> world \<Rightarrow> (CliError \<times> world) outcome" where
  "cli_parse_loop [] is_cmd_option w = Returns (CliErrorOk, w)"
| "cli_parse_loop (arg # argv) is_cmd_option w =
     (case cli_parse_step arg is_cmd_option w of
        Returns (Continue b w') \<Rightarrow> cli_parse_loop argv b w'
      | Returns (Stop e w') \<Rightarrow> Returns (e, w')
      | AssertFailed \<Rightarrow> AssertFailed
      | Undefined \<Rightarrow> Undefined)"

text \<open>
  \<open>cli_parse\<close>.  The world it starts in holds whatever the caller's \<open>Cli\<close>
  contained; \<open>argv\<close> is the vector of \<open>argc\<close> tokens.
\<close>

definition zero_array :: CliArray where
  "zero_array = \<lparr>length_f = 0, capacity = 0, data = None\<rparr>"

definition cli_parse :: "nat \<Rightarrow> token list \<Rightarrow> world \<Rightarrow> (CliError \<times> world) outcome" where
  "cli_parse C0 argv w =
     obind (cli_pop_argv argv) (\<lambda>(exe, rest).
       if length rest > 0 then
         (let c1 = (cli w)\<lparr>execfile := Some exe\<rparr>;
              (a1, h1) = cli_da_init C0 (alloc w);
              c2 = c1\<lparr>args := a1\<rparr>
          in if data a1 = None then
               Returns (CliErrorFatal, w\<lparr>cli := c2, alloc := h1, stderr := stderr w @
                 [MemoryError ''Unable to allocate memory for CLI arguments.'']\<rparr>)
             else
               (let (a2, h2) = cli_da_init C0 h1;
                    c3 = c2\<lparr>cmd_options := a2\<rparr>
                in if data a2 = None then
                     Returns (CliErrorFatal, w\<lparr>cli := c3, alloc := h2, stderr := stderr w @
                       [MemoryError ''Unable to allocate memory for command options.'']\<rparr>)
                   else
                     (let (a3, h3) = cli_da_init C0 h2;
                          c4 = c3\<lparr>program_options := a3\<rparr>
                      in if data a3 = None then
                           Returns (CliErrorFatal, w\<lparr>cli := c4, alloc := h3, stderr := stderr w @
                             [MemoryError ''Unable to allocate memory for program options.'']\<rparr>)
                         else cli_parse_loop rest False (w\<lparr>cli := c4, alloc := h3\<rparr>))))
       else
         Returns (CliErrorOk,
           w\<lparr>cli := \<lparr>execfile = Some exe, args = zero_array,
                      cmd_options = zero_array, program_options = zero_array\<rparr>\<rparr>))"

text \<open>The tokens a container holds, as the caller reads them: \<open>data[0 .. length - 1]\<close>.\<close>

definition da_list :: "CliArray \<Rightarrow> token list" where
  "da_list a = (case data a of None \<Rightarrow> []
                | Some b \<Rightarrow> map the (take (unat (length_f a)) b))"

text \<open>
  Appending a list of items one by one to a container, as \<open>cli_parse\<close> does to each
  of its three containers.
\<close>

fun da_append_all :: "token list \<Rightarrow> CliArray \<Rightarrow> allocator \<Rightarrow> (CliArray \<times> allocator) outcome" where
  "da_append_all [] a h = Returns (a, h)"
| "da_append_all (x # xs) a h =
     obind (cli_da_append a x h) (\<lambda>(a', h'). da_append_all xs a' h')"

text \<open>
  The state of a container between two appends: the block is there, the length is within
  the capacity, the capacity within the block, and the first \<open>length\<close> slots were written.
\<close>

definition da_inv :: "CliArray \<Rightarrow> bool" where
  "da_inv a = (case data a of None \<Rightarrow> False
     | Some b \<Rightarrow> unat (length_f a) \<le> unat (capacity a) \<and> unat (capacity a) \<le> length b \<and>
         list_all (\<lambda>x. x \<noteq> None) (take (unat (length_f a)) b))"

definition cli_inv :: "world \<Rightarrow> bool" where
  "cli_inv w = (da_inv (args (cli w)) \<and> da_inv (cmd_options (cli w)) \<and>
                da_inv (program_options (cli w)))"

text \<open>The number of reallocations the specification gives for \<open>N\<close> appends.\<close>

definition spec_reallocs :: "nat \<Rightarrow> nat \<Rightarrow> int" where
  "spec_reallocs N C0 = \<lceil>log 2 (real N / real C0)\<rceil>"

section \<open>The arena-backed container (the build with \<open>CLI_NOHEAP_IMPLEMENTATION\<close>)\<close>

text \<open>
  A \<open>const char**\<close> of this build is null, the constant \<open>CLI_INVALID_PTR\<close>, or the
  address of a slot of the caller's array \<open>stack\<close>.  The three containers share one
  cursor, the local variable \<open>unused\<close> of \<open>cli_parse_noheap\<close>; the field
  \<open>next_unused\<close> is null or its address.  The length is \<open>unsigned short\<close>.
\<close>

datatype ptr = Null | CLI_INVALID_PTR | Slot nat

datatype cursor_ref = NoCursor | Unused

record CliArray_nh =
  length_nh :: "16 word"
  stack_nh :: ptr
  data_nh :: ptr
  next_unused :: cursor_ref

record Cli_nh =
  execfile_nh :: "token option"
  args_nh :: CliArray_nh
  cmd_options_nh :: CliArray_nh
  program_options_nh :: CliArray_nh

text \<open>
  The memory the parse works on: the aggregate, the caller's array (the arena), the
  cursor as an index into it, and what was printed.
\<close>

record world_nh =
  cli_nh :: Cli_nh
  arena :: buffer
  unused :: nat
  stderr_nh :: "diag list"

text \<open>The macro \<open>cli_da_init\<close> of this build: the assertion, then \<open>data\<close>.\<close>

definition cli_da_init_nh :: "CliArray_nh \<Rightarrow> CliArray_nh outcome" where
  "cli_da_init_nh a =
     (if stack_nh a = Null then AssertFailed else Returns (a\<lparr>data_nh := CLI_INVALID_PTR\<rparr>))"

text \<open>
  The macro \<open>cli_da_append\<close> of this build: the item is written at the cursor, the
  cursor moves one slot on and the length is incremented.  A write past the end of the
  caller's array is not defined.
\<close>

definition cli_da_append_nh ::
  "CliArray_nh \<Rightarrow> token \<Rightarrow> buffer \<Rightarrow> nat \<Rightarrow> (CliArray_nh \<times> buffer \<times> nat) outcome" where
  "cli_da_append_nh a item mem cur =
     (case next_unused a of
        NoCursor \<Rightarrow> Undefined
      | Unused \<Rightarrow>
          (let node = cur;
               a1 = (if data_nh a = CLI_INVALID_PTR then a\<lparr>data_nh := Slot node\<rparr> else a)
           in if length mem \<le> node then Undefined
              else Returns (a1\<lparr>length_nh := length_nh a1 + 1\<rparr>,
                            mem[node := Some item], cur + 1)))"

text \<open>Reading \<open>data[i]\<close> in this build.\<close>

definition da_read_nh :: "CliArray_nh \<Rightarrow> buffer \<Rightarrow> nat \<Rightarrow> token option" where
  "da_read_nh a mem i = (case data_nh a of Slot d \<Rightarrow> (if d + i < length mem then mem ! (d + i) else None)
                         | _ \<Rightarrow> None)"

datatype step_nh = Continue_nh bool world_nh | Stop_nh CliError world_nh

definition cli_parse_step_nh :: "token \<Rightarrow> bool \<Rightarrow> world_nh \<Rightarrow> step_nh outcome" where
  "cli_parse_step_nh arg is_cmd_option w =
     (if c_at arg 0 = CHR ''-'' then
        (if c_at arg 1 = CHR ''-'' \<and> c_at arg 2 = CHR 0x00 then
           (if length_nh (args_nh (cli_nh w)) > 0 then
              (case da_read_nh (args_nh (cli_nh w)) (arena w)
                      (unat (length_nh (args_nh (cli_nh w))) - 1) of
                 None \<Rightarrow> Undefined
               | Some p \<Rightarrow>
                   Returns (Stop_nh CliErrorUser
                     (w\<lparr>stderr_nh := stderr_nh w @ [DoubleDashAfterPositional arg p]\<rparr>)))
            else Returns (Continue_nh True w))
         else
           (if is_cmd_option then
              obind (cli_da_append_nh (cmd_options_nh (cli_nh w)) arg (arena w) (unused w))
                (\<lambda>(a, mem, cur). Returns (Continue_nh is_cmd_option
                   (w\<lparr>cli_nh := (cli_nh w)\<lparr>cmd_options_nh := a\<rparr>, arena := mem, unused := cur\<rparr>)))
            else
              obind (cli_da_append_nh (program_options_nh (cli_nh w)) arg (arena w) (unused w))
                (\<lambda>(a, mem, cur). Returns (Continue_nh is_cmd_option
                   (w\<lparr>cli_nh := (cli_nh w)\<lparr>program_options_nh := a\<rparr>, arena := mem, unused := cur\<rparr>)))))
      else
        (if length_nh (cmd_options_nh (cli_nh w)) > 0 then
           Returns (Stop_nh CliErrorUser
             (w\<lparr>stderr_nh := stderr_nh w @ [PositionalAfterCmdOption arg]\<rparr>))
         else
           obind (cli_da_append_nh (args_nh (cli_nh w)) arg (arena w) (unused w))
             (\<lambda>(a, mem, cur). Returns (Continue_nh True
                (w\<lparr>cli_nh := (cli_nh w)\<lparr>args_nh := a\<rparr>, arena := mem, unused := cur\<rparr>)))))"

fun cli_parse_loop_nh :: "token list \<Rightarrow> bool \<Rightarrow> world_nh \<Rightarrow> (CliError \<times> world_nh) outcome" where
  "cli_parse_loop_nh [] is_cmd_option w = Returns (CliErrorOk, w)"
| "cli_parse_loop_nh (arg # argv) is_cmd_option w =
     (case cli_parse_step_nh arg is_cmd_option w of
        Returns (Continue_nh b w') \<Rightarrow> cli_parse_loop_nh argv b w'
      | Returns (Stop_nh e w') \<Rightarrow> Returns (e, w')
      | AssertFailed \<Rightarrow> AssertFailed
      | Undefined \<Rightarrow> Undefined)"

definition zero_array_nh :: CliArray_nh where
  "zero_array_nh = \<lparr>length_nh = 0, stack_nh = Null, data_nh = Null, next_unused = NoCursor\<rparr>"

text \<open>
  \<open>cli_parse\<close> as this build compiles it.  \<open>data\<close> is \<open>CLI_INVALID_PTR\<close> after
  each \<open>cli_da_init\<close>, so the three null checks of the prologue never fire.
\<close>

definition cli_parse_nh :: "token list \<Rightarrow> world_nh \<Rightarrow> (CliError \<times> world_nh) outcome" where
  "cli_parse_nh argv w =
     obind (cli_pop_argv argv) (\<lambda>(exe, rest).
       if length rest > 0 then
         (let c1 = (cli_nh w)\<lparr>execfile_nh := Some exe\<rparr> in
          obind (cli_da_init_nh (args_nh c1)) (\<lambda>a1.
            let c2 = c1\<lparr>args_nh := a1\<rparr> in
            if data_nh a1 = Null then
              Returns (CliErrorFatal, w\<lparr>cli_nh := c2, stderr_nh := stderr_nh w @
                [MemoryError ''Unable to allocate memory for CLI arguments.'']\<rparr>)
            else
              obind (cli_da_init_nh (cmd_options_nh c2)) (\<lambda>a2.
                let c3 = c2\<lparr>cmd_options_nh := a2\<rparr> in
                if data_nh a2 = Null then
                  Returns (CliErrorFatal, w\<lparr>cli_nh := c3, stderr_nh := stderr_nh w @
                    [MemoryError ''Unable to allocate memory for command options.'']\<rparr>)
                else
                  obind (cli_da_init_nh (program_options_nh c3)) (\<lambda>a3.
                    let c4 = c3\<lparr>program_options_nh := a3\<rparr> in
                    if data_nh a3 = Null then
                      Returns (CliErrorFatal, w\<lparr>cli_nh := c4, stderr_nh := stderr_nh w @
                        [MemoryError ''Unable to allocate memory for program options.'']\<rparr>)
                    else cli_parse_loop_nh rest False (w\<lparr>cli_nh := c4\<rparr>)))))
       else
         Returns (CliErrorOk,
           w\<lparr>cli_nh := \<lparr>execfile_nh = Some exe, args_nh = zero_array_nh,
                         cmd_options_nh = zero_array_nh, program_options_nh = zero_array_nh\<rparr>\<rparr>))"

text \<open>
  \<open>cli_parse_noheap\<close>: \<open>stack\<close> is the caller's array (\<open>None\<close> for a null
  pointer); the cursor starts at its first slot and the three containers are set to the
  same \<open>stack\<close> and the same cursor, every other field zero.
\<close>

definition cli_parse_noheap ::
  "token list \<Rightarrow> world_nh \<Rightarrow> buffer option \<Rightarrow> (CliError \<times> world_nh) outcome" where
  "cli_parse_noheap argv w stack =
     (let base = (case stack of None \<Rightarrow> Null | Some _ \<Rightarrow> Slot 0);
          fresh = \<lparr>length_nh = 0, stack_nh = base, data_nh = Null, next_unused = Unused\<rparr>
      in cli_parse_nh argv
           (w\<lparr>cli_nh := (cli_nh w)\<lparr>args_nh := fresh, cmd_options_nh := fresh,
                                     program_options_nh := fresh\<rparr>,
              arena := (case stack of None \<Rightarrow> [] | Some mem \<Rightarrow> mem),
              unused := 0\<rparr>))"

text \<open>The tokens a container of this build holds: \<open>data[0 .. length - 1]\<close>.\<close>

definition da_list_nh :: "CliArray_nh \<Rightarrow> buffer \<Rightarrow> token list" where
  "da_list_nh a mem = (case data_nh a of
       Slot d \<Rightarrow> map the (take (unat (length_nh a)) (drop d mem))
     | _ \<Rightarrow> [])"

section \<open>Notions the properties are stated with\<close>

text \<open>
  The two ways in which \<open>cli_da_append\<close> does not return: the container is full and
  the allocator refuses the reallocation, or the container is full and the doubled
  capacity, cut to 16 bits, does not exceed the length.
\<close>

definition growth_refused :: "CliArray \<Rightarrow> allocator \<Rightarrow> bool" where
  "growth_refused a h = (length_f a = capacity a \<and> \<not> alloc_ok h)"

definition capacity_wraps :: "CliArray \<Rightarrow> bool" where
  "capacity_wraps a = (length_f a = capacity a \<and> unat (capacity a * 2) \<le> unat (length_f a))"

text \<open>The three lists of the aggregate, program options first, command options last.\<close>

definition cli_concat :: "world \<Rightarrow> token list" where
  "cli_concat w = da_list (program_options (cli w)) @ da_list (args (cli w)) @
                  da_list (cmd_options (cli w))"

text \<open>
  The state at the head of the loop of \<open>cli_parse\<close>: a container as
  \<open>cli_da_init\<close> leaves it when the allocation succeeds, the condition that the three
  allocations of the prologue succeed, and the world the loop then starts in.
\<close>

definition fresh_array :: "nat \<Rightarrow> CliArray" where
  "fresh_array C0 = \<lparr>length_f = 0, capacity = of_nat C0, data = Some (replicate C0 None)\<rparr>"

definition prologue_ok :: "allocator \<Rightarrow> bool" where
  "prologue_ok h = (alloc_ok h \<and> alloc_ok (alloc_next h) \<and> alloc_ok (alloc_next (alloc_next h)))"

definition entry_world :: "nat \<Rightarrow> token \<Rightarrow> world \<Rightarrow> world" where
  "entry_world C0 exe w =
     w\<lparr>cli := (cli w)\<lparr>execfile := Some exe, args := fresh_array C0,
                cmd_options := fresh_array C0, program_options := fresh_array C0\<rparr>,
       alloc := alloc_next (alloc_next (alloc_next (alloc w)))\<rparr>"

text \<open>
  Two concrete worlds: the one of a caller whose \<open>Cli\<close> is zeroed and whose allocator
  never fails, and one in which the positional argument \<open>a\<close> has been recorded.
\<close>

definition caller_world :: world where
  "caller_world = \<lparr>cli = \<lparr>execfile = None, args = zero_array, cmd_options = zero_array,
                           program_options = zero_array\<rparr>,
                    alloc = \<lparr>plan = [], reallocs = 0\<rparr>, stderr = []\<rparr>"

definition one_arg_world :: world where
  "one_arg_world = \<lparr>cli = \<lparr>execfile = Some ''prog'',
        args = \<lparr>length_f = 1, capacity = 5, data = Some [Some ''a'', None, None, None, None]\<rparr>,
        cmd_options = fresh_array 5, program_options = fresh_array 5\<rparr>,
      alloc = \<lparr>plan = [], reallocs = 0\<rparr>, stderr = []\<rparr>"

text \<open>What the caller of \<open>cli_parse\<close> sees: the result, \<open>execfile\<close>, the three lists and the messages.\<close>

definition observe ::
  "(CliError \<times> world) outcome \<Rightarrow>
     (CliError \<times> token option \<times> token list \<times> token list \<times> token list \<times> diag list) outcome" where
  "observe r = (case r of
       Returns (e, w) \<Rightarrow> Returns (e, execfile (cli w), da_list (program_options (cli w)),
                           da_list (args (cli w)), da_list (cmd_options (cli w)), stderr w)
     | AssertFailed \<Rightarrow> AssertFailed
     | Undefined \<Rightarrow> Undefined)"

text \<open>A caller whose allocator grants three calls and refuses the fourth.\<close>

definition growth_world :: world where
  "growth_world = caller_world\<lparr>alloc := \<lparr>plan = [True, True, True, False], reallocs = 0\<rparr>\<rparr>"

text \<open>
  \<open>k\<close> doublings of the initial capacity \<open>C0\<close> make room for \<open>n\<close> items, and
  fewer do not.
\<close>

definition doublings :: "nat \<Rightarrow> nat \<Rightarrow> nat \<Rightarrow> bool" where
  "doublings C0 n k = (n \<le> C0 * 2 ^ k \<and> (k = 0 \<or> C0 * 2 ^ (k - 1) < n))"

text \<open>
  An allocator that never fails and has made no call yet.
\<close>

definition quiet_allocator :: allocator where
  "quiet_allocator = \<lparr>plan = [], reallocs = 0\<rparr>"

text \<open>
  A container of the arena build as \<open>cli_parse_noheap\<close> and \<open>cli_da_init\<close>
  leave it, the world at the head of the loop, and a caller whose \<open>Cli\<close> is zeroed.
\<close>

definition fresh_array_nh :: CliArray_nh where
  "fresh_array_nh = \<lparr>length_nh = 0, stack_nh = Slot 0, data_nh = CLI_INVALID_PTR, next_unused = Unused\<rparr>"

definition entry_world_nh :: "token \<Rightarrow> world_nh \<Rightarrow> buffer \<Rightarrow> world_nh" where
  "entry_world_nh exe w mem =
     w\<lparr>arena := mem, unused := 0,
       cli_nh := (cli_nh w)\<lparr>execfile_nh := Some exe, args_nh := fresh_array_nh,
                cmd_options_nh := fresh_array_nh, program_options_nh := fresh_array_nh\<rparr>\<rparr>"

definition caller_world_nh :: world_nh where
  "caller_world_nh = \<lparr>cli_nh = \<lparr>execfile_nh = None, args_nh = zero_array_nh,
                           cmd_options_nh = zero_array_nh, program_options_nh = zero_array_nh\<rparr>,
                       arena = [], unused = 0, stderr_nh = []\<rparr>"

text \<open>
  The three lists of the arena build, as the caller reads them from the length fields.
\<close>

definition cli_concat_nh :: "world_nh \<Rightarrow> token list" where
  "cli_concat_nh w = da_list_nh (program_options_nh (cli_nh w)) (arena w) @
                     da_list_nh (args_nh (cli_nh w)) (arena w) @
                     da_list_nh (cmd_options_nh (cli_nh w)) (arena w)"

section \<open>Words of 16 bits and the append\<close>

lemma u16_bound: "unat (w :: 16 word) < 65536"
  using unsigned_less [of w, where 'a = nat] by simp

lemma unat_inc16: "unat (l + 1 :: 16 word) = Suc (unat l) mod 65536"
  by (simp add: unat_word_ariths)

lemma unat_dbl16: "unat (c * 2 :: 16 word) = (unat c * 2) mod 65536"
  by (simp add: unat_word_ariths)

lemma len_succ: "unat (l + 1) = Suc (unat l)" if "l < (c::16 word)"
proof -
  have "unat l < unat c" using that by (simp add: word_less_nat_alt)
  moreover have "unat c < 65536" by (rule u16_bound)
  ultimately show ?thesis by (simp add: unat_inc16)
qed

lemma da_append_room:
  assumes "da_inv a" "length_f a < capacity a"
  shows "cli_da_append a item h =
     Returns (a\<lparr>length_f := length_f a + 1,
                data := Some ((the (data a))[unat (length_f a) := Some item])\<rparr>, h)"
proof -
  obtain b where b: "data a = Some b" "unat (capacity a) \<le> length b"
    using assms(1) by (auto simp: da_inv_def split: option.splits)
  have s: "unat (length_f a + 1) = Suc (unat (length_f a))" using assms(2) by (rule len_succ)
  have le: "\<not> capacity a < length_f a + 1" using assms(2) by (simp add: inc_le not_less)
  have nz: "length_f a + 1 \<noteq> 0" using s by (metis Zero_not_Suc unat_0)
  have lt: "\<not> length b \<le> unat (length_f a)" using assms(2) b(2) by (simp add: word_less_nat_alt)
  show ?thesis using b s le nz lt
    by (simp add: cli_da_append_def obind_def Let_def)
qed

lemma da_append_full:
  assumes "da_inv a" "\<not> length_f a < capacity a"
  shows "cli_da_append a item h =
     (if \<not> unat (length_f a) < (unat (capacity a) * 2) mod 65536 then
        (if capacity a = 65535 \<or> alloc_ok h then Undefined else AssertFailed)
      else if \<not> alloc_ok h then AssertFailed
      else Returns (a\<lparr>length_f := length_f a + 1, capacity := capacity a * 2,
                data := Some ((take (unat (capacity a * 2)) (the (data a))
                       @ replicate (unat (capacity a * 2) - length (the (data a))) None)
                         [unat (length_f a) := Some item])\<rparr>,
                (alloc_next h)\<lparr>reallocs := Suc (reallocs h)\<rparr>))"
proof -
  obtain b where b: "data a = Some b" "unat (capacity a) \<le> length b"
     "unat (length_f a) \<le> unat (capacity a)"
    using assms(1) by (auto simp: da_inv_def split: option.splits)
  have eq: "length_f a = capacity a" using b(3) assms(2)
    by (simp add: word_less_nat_alt word_unat_eq_iff)
  show ?thesis
  proof (cases "capacity a = 65535")
    case True
    then have "length_f a + 1 = 0" using eq by simp
    then show ?thesis using True eq b
      by (simp add: cli_da_append_def obind_def Let_def)
  next
    case False
    have ne: "unat (capacity a) \<noteq> 65535"
    proof
      assume "unat (capacity a) = 65535"
      then have "(of_nat (unat (capacity a)) :: 16 word) = of_nat 65535" by simp
      then show False using False by simp
    qed
    then have lt: "unat (capacity a) < 65535" using u16_bound [of "capacity a"] by simp
    then have s: "unat (capacity a + 1) = Suc (unat (capacity a))"
      by (simp add: unat_inc16)
    then have gt: "capacity a < capacity a + 1" by (simp add: word_less_nat_alt)
    have nz: "capacity a + 1 \<noteq> 0" using s by (metis Zero_not_Suc unat_0)
    show ?thesis using False eq b s gt nz
      by (simp add: cli_da_append_def obind_def Let_def CLI_REALLOC_def unat_dbl16 not_less
               min_def)
  qed
qed

lemma take_upd_snoc: "n < length xs \<Longrightarrow> take (Suc n) (xs[n := x]) = take n xs @ [x]"
  by (simp add: take_Suc_conv_app_nth)

lemma da_append_Returns:
  assumes "da_inv a" "cli_da_append a item h = Returns (a', h')"
  shows "da_inv a' \<and> da_list a' = da_list a @ [item] \<and>
         unat (length_f a') = Suc (unat (length_f a))"
proof -
  obtain b where b: "data a = Some b" "unat (capacity a) \<le> length b"
     "unat (length_f a) \<le> unat (capacity a)"
     "list_all (\<lambda>x. x \<noteq> None) (take (unat (length_f a)) b)"
    using assms(1) by (auto simp: da_inv_def split: option.splits)
  show ?thesis
  proof (cases "length_f a < capacity a")
    case True
    have s: "unat (length_f a + 1) = Suc (unat (length_f a))" using True by (rule len_succ)
    have lt: "unat (length_f a) < unat (capacity a)" using True by (simp add: word_less_nat_alt)
    have a': "a' = a\<lparr>length_f := length_f a + 1,
                data := Some (b[unat (length_f a) := Some item])\<rparr>"
      using da_append_room [OF assms(1) True, of item h] assms(2) b(1) by simp
    show ?thesis using b s lt
      by (simp add: a' da_inv_def da_list_def take_upd_snoc)
  next
    case False
    have eq: "length_f a = capacity a" using b(3) False
      by (simp add: word_less_nat_alt word_unat_eq_iff)
    let ?c2 = "unat (capacity a * 2)"
    from da_append_full [OF assms(1) False, of item h] assms(2)
    have lt: "unat (length_f a) < (unat (capacity a) * 2) mod 65536"
      and a': "a' = a\<lparr>length_f := length_f a + 1, capacity := capacity a * 2,
                data := Some ((take ?c2 b @ replicate (?c2 - length b) None)
                         [unat (length_f a) := Some item])\<rparr>"
      using b(1) by (auto split: if_splits)
    have c2: "?c2 = (unat (capacity a) * 2) mod 65536" by (rule unat_dbl16)
    have "(unat (capacity a) * 2) mod 65536 < 65536" by simp
    with lt have "unat (length_f a) < 65535" by linarith
    then have s: "unat (length_f a + 1) = Suc (unat (length_f a))" by (simp add: unat_inc16)
    have tk: "take (unat (length_f a)) (take ?c2 b @ replicate (?c2 - length b) None)
                = take (unat (length_f a)) b"
      using lt c2 b(2) b(3) by (simp add: min_def)
    have ln: "length (take ?c2 b @ replicate (?c2 - length b) None) = ?c2" by simp
    show ?thesis using b s lt c2 tk ln
      by (simp add: a' da_inv_def da_list_def take_upd_snoc del: length_append length_take length_replicate take_append)
  qed
qed

lemma da_append_outcome:
  assumes "da_inv a"
  shows "(\<exists>a' h'. cli_da_append a item h = Returns (a', h') \<and> da_inv a' \<and>
            da_list a' = da_list a @ [item] \<and> unat (length_f a') = Suc (unat (length_f a)))
       \<or> (cli_da_append a item h = AssertFailed \<and> growth_refused a h)
       \<or> (cli_da_append a item h = Undefined \<and> capacity_wraps a)"
proof (cases "length_f a < capacity a")
  case True
  from da_append_room [OF assms True, of item h]
  obtain a' where r: "cli_da_append a item h = Returns (a', h)" by simp
  from da_append_Returns [OF assms r] r show ?thesis by blast
next
  case False
  have "unat (length_f a) \<le> unat (capacity a)"
    using assms by (auto simp: da_inv_def split: option.splits)
  then have eq: "length_f a = capacity a" using False
    by (simp add: word_less_nat_alt word_unat_eq_iff)
  show ?thesis
  proof (cases "cli_da_append a item h")
    case (Returns p)
    then obtain a' h' where r: "cli_da_append a item h = Returns (a', h')" by (cases p) simp
    from da_append_Returns [OF assms r] r show ?thesis by blast
  next
    case AssertFailed
    then have "\<not> alloc_ok h"
      using da_append_full [OF assms False, of item h] by (auto split: if_splits)
    then show ?thesis using AssertFailed eq by (simp add: growth_refused_def)
  next
    case Undefined
    then have "\<not> unat (length_f a) < (unat (capacity a) * 2) mod 65536"
      using da_append_full [OF assms False, of item h] by (auto split: if_splits)
    then show ?thesis using Undefined eq by (simp add: capacity_wraps_def unat_dbl16)
  qed
qed

lemma da_inv_nonempty: "da_inv a \<Longrightarrow> (da_list a \<noteq> []) = (0 < length_f a)"
  by (auto simp: da_inv_def da_list_def word_less_nat_alt split: option.splits)

lemma da_read_last:
  assumes "da_inv a" "0 < length_f a"
  shows "da_read a (unat (length_f a) - 1) = Some (last (da_list a))"
proof -
  obtain b where b: "data a = Some b" "unat (capacity a) \<le> length b"
     "unat (length_f a) \<le> unat (capacity a)"
     "list_all (\<lambda>x. x \<noteq> None) (take (unat (length_f a)) b)"
    using assms(1) by (auto simp: da_inv_def split: option.splits)
  let ?n = "unat (length_f a)"
  have pos: "0 < ?n" using assms(2) by (simp add: word_less_nat_alt)
  then have lt: "?n - 1 < length b" using b(2,3) by linarith
  have ne: "take ?n b \<noteq> []" using pos lt by auto
  have len: "length (take ?n b) = ?n" using b(2,3) by simp
  have "last (take ?n b) = (take ?n b) ! (?n - 1)"
    using ne len by (simp add: last_conv_nth del: length_take)
  also have "\<dots> = b ! (?n - 1)" using pos by simp
  finally have "last (take ?n b) = b ! (?n - 1)" .
  moreover have "b ! (?n - 1) \<noteq> None"
  proof -
    have "(take ?n b) ! (?n - 1) \<noteq> None"
      using b(4) pos len unfolding list_all_length by (metis diff_less zero_less_one)
    then show ?thesis using pos by simp
  qed
  ultimately show ?thesis using b(1) lt ne
    by (auto simp: da_read_def da_list_def last_map)
qed

lemma c_at_dash: "(c_at t 0 = CHR ''-'') = (\<exists>r. t = CHR ''-'' # r)"
  by (cases t) (auto simp: c_at_def)

lemma sep_test:
  "cstring t \<Longrightarrow> (c_at t 0 = CHR ''-'' \<and> c_at t 1 = CHR ''-'' \<and> c_at t 2 = CHR 0x00) = (t = ''--'')"
proof (cases t)
  case Nil then show ?thesis by (simp add: c_at_def)
next
  case (Cons x r)
  assume c: "cstring t"
  show ?thesis
  proof (cases r)
    case Nil then show ?thesis using Cons by (auto simp: c_at_def)
  next
    case (Cons y q)
    with \<open>t = x # r\<close> c show ?thesis by (cases q) (auto simp: c_at_def cstring_def)
  qed
qed

lemma step_sep:
  assumes "cli_inv w"
  shows "cli_parse_step ''--'' b w =
     (if da_list (args (cli w)) \<noteq> [] then
        Returns (Stop CliErrorUser (w\<lparr>stderr := stderr w @
           [DoubleDashAfterPositional ''--'' (last (da_list (args (cli w))))]\<rparr>))
      else Returns (Continue True w))"
proof -
  have i: "da_inv (args (cli w))" using assms by (simp add: cli_inv_def)
  have t: "c_at ''--'' 0 = CHR ''-''" "c_at ''--'' 1 = CHR ''-''" "c_at ''--'' 2 = CHR 0x00"
    by (simp_all add: c_at_def)
  show ?thesis
  proof (cases "0 < length_f (args (cli w))")
    case True
    then show ?thesis using da_read_last [OF i True] da_inv_nonempty [OF i] t
      by (simp add: cli_parse_step_def)
  next
    case False
    then show ?thesis using da_inv_nonempty [OF i] t
      by (simp add: cli_parse_step_def)
  qed
qed

lemma step_pos_error:
  assumes "cli_inv w" "c_at t 0 \<noteq> CHR ''-''" "da_list (cmd_options (cli w)) \<noteq> []"
  shows "cli_parse_step t b w =
     Returns (Stop CliErrorUser (w\<lparr>stderr := stderr w @ [PositionalAfterCmdOption t]\<rparr>))"
proof -
  have i: "da_inv (cmd_options (cli w))" using assms by (simp add: cli_inv_def)
  show ?thesis using assms(2,3) da_inv_nonempty [OF i] by (simp add: cli_parse_step_def)
qed

lemma step_pos_append:
  assumes "cli_inv w" "c_at t 0 \<noteq> CHR ''-''" "da_list (cmd_options (cli w)) = []"
  shows "(\<exists>w'. cli_parse_step t b w = Returns (Continue True w') \<and> cli_inv w' \<and>
            da_list (args (cli w')) = da_list (args (cli w)) @ [t] \<and>
            cmd_options (cli w') = cmd_options (cli w) \<and>
            program_options (cli w') = program_options (cli w) \<and>
            execfile (cli w') = execfile (cli w) \<and> stderr w' = stderr w)
       \<or> (cli_parse_step t b w = AssertFailed \<and> growth_refused (args (cli w)) (alloc w))
       \<or> (cli_parse_step t b w = Undefined \<and> capacity_wraps (args (cli w)))"
proof -
  have i: "da_inv (args (cli w))" "da_inv (cmd_options (cli w))" "da_inv (program_options (cli w))"
    using assms by (simp_all add: cli_inv_def)
  have s: "cli_parse_step t b w = obind (cli_da_append (args (cli w)) t (alloc w))
             (\<lambda>(a, h). Returns (Continue True (w\<lparr>cli := (cli w)\<lparr>args := a\<rparr>, alloc := h\<rparr>)))"
    using assms(2,3) da_inv_nonempty [OF i(2)] by (simp add: cli_parse_step_def)
  from da_append_outcome [OF i(1), of t "alloc w"] show ?thesis
    using i by (auto simp: s obind_def cli_inv_def)
qed

lemma step_opt:
  assumes "cli_inv w" "c_at t 0 = CHR ''-''" "t \<noteq> ''--''" "cstring t"
  shows "(\<exists>w'. cli_parse_step t b w = Returns (Continue b w') \<and> cli_inv w' \<and>
            da_list (cmd_options (cli w')) = da_list (cmd_options (cli w)) @ (if b then [t] else []) \<and>
            da_list (program_options (cli w')) =
               da_list (program_options (cli w)) @ (if b then [] else [t]) \<and>
            args (cli w') = args (cli w) \<and>
            execfile (cli w') = execfile (cli w) \<and> stderr w' = stderr w)
       \<or> (cli_parse_step t b w = AssertFailed \<and>
            growth_refused (if b then cmd_options (cli w) else program_options (cli w)) (alloc w))
       \<or> (cli_parse_step t b w = Undefined \<and>
            capacity_wraps (if b then cmd_options (cli w) else program_options (cli w)))"
proof -
  have i: "da_inv (args (cli w))" "da_inv (cmd_options (cli w))" "da_inv (program_options (cli w))"
    using assms by (simp_all add: cli_inv_def)
  have ns: "\<not> (c_at t 1 = CHR ''-'' \<and> c_at t 2 = CHR 0x00)"
    using sep_test [OF assms(4)] assms(2,3) by blast
  show ?thesis
  proof (cases b)
    case True
    have s: "cli_parse_step t True w = obind (cli_da_append (cmd_options (cli w)) t (alloc w))
             (\<lambda>(a, h). Returns (Continue True (w\<lparr>cli := (cli w)\<lparr>cmd_options := a\<rparr>, alloc := h\<rparr>)))"
      using assms(2) ns by (auto simp add: cli_parse_step_def simp del: One_nat_def)
    from da_append_outcome [OF i(2), of t "alloc w"] show ?thesis
      using i True by (auto simp: s obind_def cli_inv_def)
  next
    case False
    have s: "cli_parse_step t False w = obind (cli_da_append (program_options (cli w)) t (alloc w))
             (\<lambda>(a, h). Returns (Continue False (w\<lparr>cli := (cli w)\<lparr>program_options := a\<rparr>, alloc := h\<rparr>)))"
      using assms(2) ns by (auto simp add: cli_parse_step_def simp del: One_nat_def)
    from da_append_outcome [OF i(3), of t "alloc w"] show ?thesis
      using i False by (auto simp: s obind_def cli_inv_def)
  qed
qed

section \<open>The loop\<close>

lemma step_Stop:
  "cli_parse_step t b w = Returns (Stop e w') \<Longrightarrow>
     e = CliErrorUser \<and> cli w' = cli w \<and> alloc w' = alloc w"
  by (auto simp: cli_parse_step_def obind_def split: if_splits option.splits outcome.splits)

lemma step_Continue_exec:
  "cli_parse_step t b w = Returns (Continue b' w') \<Longrightarrow> execfile (cli w') = execfile (cli w)"
  by (auto simp: cli_parse_step_def obind_def split: if_splits option.splits outcome.splits)

lemma step_Continue_inv:
  assumes "cli_inv w" "cli_parse_step t b w = Returns (Continue b' w')"
  shows "cli_inv w'"
  using assms
  by (auto simp: cli_parse_step_def obind_def cli_inv_def dest: da_append_Returns
           split: if_splits option.splits outcome.splits)

lemma step_Continue_mset:
  assumes "cli_inv w" "cstring t" "cli_parse_step t b w = Returns (Continue b' w')"
  shows "mset (cli_concat w') = mset (cli_concat w) + mset (filter (\<lambda>x. x \<noteq> ''--'') [t])"
proof (cases "t = ''--''")
  case True
  then show ?thesis using step_sep [OF assms(1), of b] assms(3) by (auto split: if_splits)
next
  case ns: False
  show ?thesis
  proof (cases "c_at t 0 = CHR ''-''")
    case True
    from step_opt [OF assms(1) True ns assms(2), of b] assms(3) ns
    show ?thesis by (auto simp: cli_concat_def)
  next
    case False
    show ?thesis
    proof (cases "da_list (cmd_options (cli w)) = []")
      case True
      from step_pos_append [OF assms(1) False True, of b] assms(3) ns
      show ?thesis by (auto simp: cli_concat_def)
    next
      case ne: False
      from step_pos_error [OF assms(1) False ne, of b] assms(3) show ?thesis by simp
    qed
  qed
qed

lemma loop_Returns_exec:
  "cli_parse_loop ts b w = Returns (e, w') \<Longrightarrow> execfile (cli w') = execfile (cli w)"
proof (induction ts arbitrary: b w)
  case Nil
  then show ?case by simp
next
  case (Cons t ts)
  show ?case
  proof (cases "cli_parse_step t b w")
    case (Returns s)
    show ?thesis
    proof (cases s)
      case (Continue b1 w1)
      with Returns Cons.prems have "cli_parse_loop ts b1 w1 = Returns (e, w')" by simp
      from Cons.IH [OF this] step_Continue_exec [of t b w b1 w1] Returns Continue
      show ?thesis by simp
    next
      case (Stop e1 w1)
      with Returns Cons.prems step_Stop [of t b w e1 w1] show ?thesis by simp
    qed
  qed (use Cons.prems in simp_all)
qed

lemma loop_not_fatal:
  "cli_parse_loop ts b w = Returns (e, w') \<Longrightarrow> e \<noteq> CliErrorFatal"
proof (induction ts arbitrary: b w)
  case Nil
  then show ?case by auto
next
  case (Cons t ts)
  show ?case
  proof (cases "cli_parse_step t b w")
    case (Returns s)
    show ?thesis
    proof (cases s)
      case (Continue b1 w1)
      with Returns Cons.prems have "cli_parse_loop ts b1 w1 = Returns (e, w')" by simp
      from Cons.IH [OF this] show ?thesis .
    next
      case (Stop e1 w1)
      with Returns Cons.prems step_Stop [of t b w e1 w1] show ?thesis by auto
    qed
  qed (use Cons.prems in simp_all)
qed

lemma loop_Ok:
  assumes "cli_inv w" "list_all cstring ts" "cli_parse_loop ts b w = Returns (CliErrorOk, w')"
  shows "cli_inv w' \<and>
         mset (cli_concat w') = mset (cli_concat w) + mset (filter (\<lambda>x. x \<noteq> ''--'') ts)"
  using assms
proof (induction ts arbitrary: b w)
  case Nil
  then show ?case by simp
next
  case (Cons t ts)
  show ?case
  proof (cases "cli_parse_step t b w")
    case (Returns s)
    show ?thesis
    proof (cases s)
      case (Continue b1 w1)
      with Returns Cons.prems have l: "cli_parse_loop ts b1 w1 = Returns (CliErrorOk, w')" by simp
      have st: "cli_parse_step t b w = Returns (Continue b1 w1)" using Returns Continue by simp
      have i1: "cli_inv w1" using step_Continue_inv [OF Cons.prems(1) st] .
      have c: "cstring t" "list_all cstring ts" using Cons.prems(2) by simp_all
      from Cons.IH [OF i1 c(2) l] step_Continue_mset [OF Cons.prems(1) c(1) st]
      show ?thesis by simp
    next
      case (Stop e1 w1)
      with Returns Cons.prems step_Stop [of t b w e1 w1] show ?thesis by auto
    qed
  qed (use Cons.prems in simp_all)
qed

lemma loop_Ok_inv:
  assumes "cli_inv w" "cli_parse_loop ts b w = Returns (CliErrorOk, w')"
  shows "cli_inv w'"
  using assms
proof (induction ts arbitrary: b w)
  case Nil
  then show ?case by simp
next
  case (Cons t ts)
  show ?case
  proof (cases "cli_parse_step t b w")
    case (Returns s)
    show ?thesis
    proof (cases s)
      case (Continue b1 w1)
      with Returns Cons.prems have l: "cli_parse_loop ts b1 w1 = Returns (CliErrorOk, w')" by simp
      have st: "cli_parse_step t b w = Returns (Continue b1 w1)" using Returns Continue by simp
      from Cons.IH [OF step_Continue_inv [OF Cons.prems(1) st] l] show ?thesis .
    next
      case (Stop e1 w1)
      with Returns Cons.prems step_Stop [of t b w e1 w1] show ?thesis by auto
    qed
  qed (use Cons.prems in simp_all)
qed

lemma loop_append:
  "cli_parse_loop pre b w = Returns (CliErrorOk, w1) \<Longrightarrow>
     \<exists>b1. \<forall>rest. cli_parse_loop (pre @ rest) b w = cli_parse_loop rest b1 w1"
proof (induction pre arbitrary: b w)
  case Nil
  then show ?case by auto
next
  case (Cons t ts)
  show ?case
  proof (cases "cli_parse_step t b w")
    case (Returns s)
    show ?thesis
    proof (cases s)
      case (Continue b2 w2)
      with Returns Cons.prems have l: "cli_parse_loop ts b2 w2 = Returns (CliErrorOk, w1)" by simp
      from Cons.IH [OF l] Returns Continue show ?thesis by simp
    next
      case (Stop e1 w2)
      with Returns Cons.prems step_Stop [of t b w e1 w2] show ?thesis by auto
    qed
  qed (use Cons.prems in simp_all)
qed

lemma fresh_array_inv: "da_inv (fresh_array C0)"
  by (simp add: da_inv_def fresh_array_def unat_of_nat)

lemma fresh_array_list: "da_list (fresh_array C0) = []"
  by (simp add: da_list_def fresh_array_def)

lemma zero_array_list: "da_list zero_array = []"
  by (simp add: da_list_def zero_array_def)

lemma cli_parse_entry:
  assumes "rest \<noteq> []" "prologue_ok (alloc w)"
  shows "cli_parse C0 (exe # rest) w = cli_parse_loop rest False (entry_world C0 exe w)"
  using assms
  by (simp add: cli_parse_def cli_pop_argv_def obind_def cli_da_init_def CLI_MALLOC_def
        Let_def prologue_ok_def entry_world_def fresh_array_def)

lemma cli_parse_fatal:
  assumes "rest \<noteq> []" "\<not> prologue_ok (alloc w)"
  shows "\<exists>w'. cli_parse C0 (exe # rest) w = Returns (CliErrorFatal, w') \<and>
              execfile (cli w') = Some exe"
  using assms
  by (auto simp add: cli_parse_def cli_pop_argv_def obind_def cli_da_init_def CLI_MALLOC_def
        Let_def prologue_ok_def)

lemma cli_parse_single:
  "cli_parse C0 [exe] w = Returns (CliErrorOk,
      w\<lparr>cli := \<lparr>execfile = Some exe, args = zero_array,
                 cmd_options = zero_array, program_options = zero_array\<rparr>\<rparr>)"
  by (simp add: cli_parse_def cli_pop_argv_def obind_def)

lemma entry_world_inv: "cli_inv (entry_world C0 exe w)"
  by (simp add: cli_inv_def entry_world_def fresh_array_inv)

lemma entry_world_concat: "cli_concat (entry_world C0 exe w) = []"
  by (simp add: cli_concat_def entry_world_def fresh_array_list)

section \<open>The grammar\<close>

lemmas eval_defs = cli_parse_def cli_pop_argv_def obind_def cli_da_init_def CLI_MALLOC_def
  CLI_REALLOC_def alloc_ok_def alloc_next_def cli_parse_step_def c_at_def cli_da_append_def
  da_read_def da_list_def zero_array_def fresh_array_def caller_world_def one_arg_world_def
  cli_inv_def da_inv_def Let_def cstring_def growth_refused_def capacity_wraps_def
  cli_concat_def entry_world_def

text \<open>
  The separator on the heap build.  In a state of the loop, the token \<open>--\<close> ends the parse with the user
  error when \<open>args\<close> holds a token: \<open>cli_parse\<close> returns at once, whatever
  follows, and the message carries the token and the last recorded positional argument.
  When \<open>args\<close> is empty the loop goes on with \<open>is_cmd_option\<close> set and the
  world unchanged, so the separator is in none of the three lists.
\<close>

theorem double_dash_rule:
  assumes "cli_inv w"
  shows "(da_list (args (cli w)) \<noteq> [] \<longrightarrow>
            cli_parse_loop (''--'' # rest) b w =
              Returns (CliErrorUser, w\<lparr>stderr := stderr w @
                [DoubleDashAfterPositional ''--'' (last (da_list (args (cli w))))]\<rparr>)) \<and>
         (da_list (args (cli w)) = [] \<longrightarrow>
            cli_parse_step ''--'' b w = Returns (Continue True w))"
  using step_sep [OF assms, of b] by simp

theorem double_dash_rule_witness:
  "cli_parse_loop [''--'', ''b''] True one_arg_world =
     Returns (CliErrorUser, one_arg_world\<lparr>stderr := [DoubleDashAfterPositional ''--'' ''a'']\<rparr>) \<and>
   cli_parse_step ''--'' False (entry_world 5 ''prog'' caller_world) =
     Returns (Continue True (entry_world 5 ''prog'' caller_world))"
proof -
  have i: "cli_inv one_arg_world" by (simp add: eval_defs)
  have l: "da_list (args (cli one_arg_world)) = [''a'']" by (simp add: eval_defs)
  have s: "stderr one_arg_world = []" by (simp add: eval_defs)
  have e: "da_list (args (cli (entry_world 5 ''prog'' caller_world))) = []"
    by (simp add: entry_world_def fresh_array_list)
  show ?thesis
    using double_dash_rule [OF i, of "[''b'']" True]
      double_dash_rule [OF entry_world_inv, of 5 "''prog''" caller_world "[]" False] l s e
    by simp
qed

text \<open>
  A positional token on the heap build.  A token that does not begin with \<open>-\<close> (the empty token included)
  ends the parse with the user error carrying the token when \<open>cmd_options\<close> holds a
  token.  Otherwise it is appended to \<open>args\<close> and \<open>is_cmd_option\<close> is set; the
  only other outcomes are those of an append that cannot grow its block.
\<close>

theorem positional_rule:
  assumes "cli_inv w" "t = [] \<or> hd t \<noteq> CHR ''-''"
  shows "(da_list (cmd_options (cli w)) \<noteq> [] \<longrightarrow>
            cli_parse_loop (t # rest) b w =
              Returns (CliErrorUser, w\<lparr>stderr := stderr w @ [PositionalAfterCmdOption t]\<rparr>)) \<and>
         (da_list (cmd_options (cli w)) = [] \<longrightarrow>
            (\<exists>w'. cli_parse_step t b w = Returns (Continue True w') \<and> cli_inv w' \<and>
               da_list (args (cli w')) = da_list (args (cli w)) @ [t] \<and>
               cmd_options (cli w') = cmd_options (cli w) \<and>
               program_options (cli w') = program_options (cli w) \<and>
               execfile (cli w') = execfile (cli w) \<and> stderr w' = stderr w)
          \<or> (cli_parse_step t b w = AssertFailed \<and> growth_refused (args (cli w)) (alloc w))
          \<or> (cli_parse_step t b w = Undefined \<and> capacity_wraps (args (cli w))))"
proof -
  have p: "c_at t 0 \<noteq> CHR ''-''" using assms(2) by (cases t) (auto simp: c_at_def)
  show ?thesis
    using step_pos_error [OF assms(1) p, of b] step_pos_append [OF assms(1) p, of b]
    by auto
qed

theorem positional_rule_witness:
  "(\<exists>w'. cli_parse_step '''' False (entry_world 5 ''prog'' caller_world) =
            Returns (Continue True w') \<and>
          da_list (args (cli w')) = [''''])"
proof -
  let ?w = "entry_world 5 ''prog'' caller_world"
  have e: "da_list (cmd_options (cli ?w)) = []" "da_list (args (cli ?w)) = []"
    by (simp_all add: entry_world_def fresh_array_list)
  have g: "\<not> growth_refused (args (cli ?w)) (alloc ?w)" "\<not> capacity_wraps (args (cli ?w))"
    by (simp_all add: eval_defs)
  show ?thesis
    using positional_rule [OF entry_world_inv, of "''''" 5 "''prog''" caller_world "[]" False] e g
    by auto
qed

text \<open>
  An option token on the heap build.  A token that begins with \<open>-\<close> and is not \<open>--\<close> (a single
  \<open>-\<close> included) is appended to \<open>cmd_options\<close> when \<open>is_cmd_option\<close> is set
  and to \<open>program_options\<close> otherwise; the other lists and the flag stay as they are.
  The only other outcomes are those of an append that cannot grow its block.
\<close>

theorem option_rule:
  assumes "cli_inv w" "t = CHR ''-'' # r" "t \<noteq> ''--''" "cstring t"
  shows "(\<exists>w'. cli_parse_step t b w = Returns (Continue b w') \<and> cli_inv w' \<and>
            da_list (cmd_options (cli w')) =
               da_list (cmd_options (cli w)) @ (if b then [t] else []) \<and>
            da_list (program_options (cli w')) =
               da_list (program_options (cli w)) @ (if b then [] else [t]) \<and>
            args (cli w') = args (cli w) \<and>
            execfile (cli w') = execfile (cli w) \<and> stderr w' = stderr w)
       \<or> (cli_parse_step t b w = AssertFailed \<and>
            growth_refused (if b then cmd_options (cli w) else program_options (cli w)) (alloc w))
       \<or> (cli_parse_step t b w = Undefined \<and>
            capacity_wraps (if b then cmd_options (cli w) else program_options (cli w)))"
proof -
  have p: "c_at t 0 = CHR ''-''" using assms(2) by (simp add: c_at_def)
  show ?thesis using step_opt [OF assms(1) p assms(3,4), of b] .
qed

theorem option_rule_witness:
  "(\<exists>w'. cli_parse_step ''-'' True (entry_world 5 ''prog'' caller_world) =
            Returns (Continue True w') \<and>
          da_list (cmd_options (cli w')) = [''-''] \<and> da_list (program_options (cli w')) = []) \<and>
   (\<exists>w'. cli_parse_step ''-'' False (entry_world 5 ''prog'' caller_world) =
            Returns (Continue False w') \<and>
          da_list (cmd_options (cli w')) = [] \<and> da_list (program_options (cli w')) = [''-''])"
proof -
  let ?w = "entry_world 5 ''prog'' caller_world"
  have e: "da_list (cmd_options (cli ?w)) = []" "da_list (program_options (cli ?w)) = []"
    by (simp_all add: entry_world_def fresh_array_list)
  have g: "\<not> growth_refused (cmd_options (cli ?w)) (alloc ?w)"
      "\<not> capacity_wraps (cmd_options (cli ?w))"
      "\<not> growth_refused (program_options (cli ?w)) (alloc ?w)"
      "\<not> capacity_wraps (program_options (cli ?w))"
    by (simp_all add: eval_defs)
  have c: "cstring ''-''" "''-'' \<noteq> ''--''" by (simp_all add: cstring_def)
  show ?thesis
    using option_rule [where w = ?w and t = "''-''" and r = "[]" and b = True]
      option_rule [where w = ?w and t = "''-''" and r = "[]" and b = False]
      entry_world_inv [of 5 "''prog''" caller_world] c e g
    by auto
qed

section \<open>The whole parse\<close>

lemma observe_Returns:
  "observe r = Returns (e, x, p, a, c, d) \<Longrightarrow>
     \<exists>w. r = Returns (e, w) \<and> execfile (cli w) = x \<and> da_list (program_options (cli w)) = p \<and>
         da_list (args (cli w)) = a \<and> da_list (cmd_options (cli w)) = c \<and> stderr w = d"
  by (auto simp: observe_def split: outcome.splits prod.splits)

lemma cli_parse_cases:
  assumes "cli_parse C0 argv w0 = Returns (e, w)"
  obtains (single) exe where "argv = [exe]" "e = CliErrorOk"
      "w = w0\<lparr>cli := \<lparr>execfile = Some exe, args = zero_array,
                 cmd_options = zero_array, program_options = zero_array\<rparr>\<rparr>"
  | (fatal) exe rest where "argv = exe # rest" "rest \<noteq> []" "\<not> prologue_ok (alloc w0)"
      "e = CliErrorFatal" "execfile (cli w) = Some exe"
  | (loop) exe rest where "argv = exe # rest" "rest \<noteq> []" "prologue_ok (alloc w0)"
      "cli_parse_loop rest False (entry_world C0 exe w0) = Returns (e, w)"
proof (cases argv)
  case Nil
  with assms show ?thesis by (simp add: cli_parse_def cli_pop_argv_def obind_def)
next
  case (Cons exe rest)
  show ?thesis
  proof (cases "rest = []")
    case True
    with Cons assms cli_parse_single [of C0 exe w0] show ?thesis by (intro single) auto
  next
    case ne: False
    show ?thesis
    proof (cases "prologue_ok (alloc w0)")
      case True
      with cli_parse_entry [OF ne True, of C0 exe] Cons assms ne show ?thesis
        by (intro loop) auto
    next
      case False
      with cli_parse_fatal [OF ne False, of C0 exe] Cons assms ne show ?thesis
        by (intro fatal) auto
    qed
  qed
qed

text \<open>
  The three lists on the heap build.  When \<open>cli_parse\<close> returns \<open>CliErrorOk\<close>, the three lists,
  program options then positional arguments then command options, hold together exactly
  the tokens after the execution path that are not \<open>--\<close>, each as often as the
  input has it: their concatenation is a permutation of the input without its first token
  and without the separators.
\<close>

theorem concat_is_permutation:
  assumes "cli_parse C0 argv w0 = Returns (CliErrorOk, w)" "list_all cstring argv"
  shows "mset (cli_concat w) = mset (filter (\<lambda>t. t \<noteq> ''--'') (tl argv))"
  using assms(1)
proof (cases rule: cli_parse_cases)
  case (single exe)
  then show ?thesis by (simp add: cli_concat_def zero_array_list)
next
  case (fatal exe rest)
  then show ?thesis by simp
next
  case (loop exe rest)
  have c: "list_all cstring rest" using assms(2) loop(1) by simp
  from loop_Ok [OF entry_world_inv c loop(4)] loop(1) show ?thesis
    by (simp add: entry_world_concat)
qed

theorem concat_is_permutation_witness:
  "\<exists>w. cli_parse 5 [''prog'', ''-v'', ''--'', ''build'', ''--release''] caller_world
          = Returns (CliErrorOk, w) \<and>
        cli_concat w = [''-v'', ''build'', ''--release''] \<and>
        mset (cli_concat w) =
          mset (filter (\<lambda>t. t \<noteq> ''--'') [''-v'', ''--'', ''build'', ''--release''])"
proof -
  let ?argv = "[''prog'', ''-v'', ''--'', ''build'', ''--release'']"
  have "observe (cli_parse 5 ?argv caller_world) =
          Returns (CliErrorOk, Some ''prog'', [''-v''], [''build''], [''--release''], [])"
    by code_simp
  from observe_Returns [OF this] obtain w where
    w: "cli_parse 5 ?argv caller_world = Returns (CliErrorOk, w)"
      "cli_concat w = [''-v'', ''build'', ''--release'']"
    by (auto simp: cli_concat_def)
  have c: "list_all cstring ?argv" by (simp add: cstring_def)
  from concat_is_permutation [OF w(1) c] w show ?thesis by (intro exI [of _ w]) simp
qed

text \<open>
  Claim C5.  Whatever \<open>cli_parse\<close> returns on a vector that is not empty
  (\<open>CliErrorOk\<close>, \<open>CliErrorUser\<close> or \<open>CliErrorFatal\<close>), \<open>execfile\<close> is the
  first token.
\<close>

theorem execfile_is_first_token:
  assumes "argv \<noteq> []" "cli_parse C0 argv w0 = Returns (e, w)"
  shows "execfile (cli w) = Some (hd argv)"
  using assms(2)
proof (cases rule: cli_parse_cases)
  case (single exe)
  then show ?thesis by simp
next
  case (fatal exe rest)
  then show ?thesis by simp
next
  case (loop exe rest)
  from loop_Returns_exec [OF loop(4)] loop(1) show ?thesis by (simp add: entry_world_def)
qed

theorem execfile_is_first_token_witness:
  "(\<exists>w. cli_parse 5 [''prog'', ''-v''] caller_world = Returns (CliErrorOk, w) \<and>
         execfile (cli w) = Some (hd [''prog'', ''-v''])) \<and>
   (\<exists>w. cli_parse 5 [''prog'', ''a'', ''--''] caller_world = Returns (CliErrorUser, w) \<and>
         execfile (cli w) = Some (hd [''prog'', ''a'', ''--''])) \<and>
   (\<exists>w. cli_parse 5 [''prog'', ''a''] (caller_world\<lparr>alloc := \<lparr>plan = [False], reallocs = 0\<rparr>\<rparr>)
           = Returns (CliErrorFatal, w) \<and>
         execfile (cli w) = Some (hd [''prog'', ''a'']))"
proof -
  have "observe (cli_parse 5 [''prog'', ''-v''] caller_world) =
          Returns (CliErrorOk, Some ''prog'', [''-v''], [], [], [])"
    by code_simp
  from observe_Returns [OF this] obtain w1 where
    1: "cli_parse 5 [''prog'', ''-v''] caller_world = Returns (CliErrorOk, w1)" by blast
  have "observe (cli_parse 5 [''prog'', ''a'', ''--''] caller_world) =
          Returns (CliErrorUser, Some ''prog'', [], [''a''], [],
                   [DoubleDashAfterPositional ''--'' ''a''])"
    by code_simp
  from observe_Returns [OF this] obtain w2 where
    2: "cli_parse 5 [''prog'', ''a'', ''--''] caller_world = Returns (CliErrorUser, w2)" by blast
  have "observe (cli_parse 5 [''prog'', ''a'']
                  (caller_world\<lparr>alloc := \<lparr>plan = [False], reallocs = 0\<rparr>\<rparr>)) =
          Returns (CliErrorFatal, Some ''prog'', [], [], [],
                   [MemoryError ''Unable to allocate memory for CLI arguments.''])"
    by code_simp
  from observe_Returns [OF this] obtain w3 where
    3: "cli_parse 5 [''prog'', ''a''] (caller_world\<lparr>alloc := \<lparr>plan = [False], reallocs = 0\<rparr>\<rparr>)
          = Returns (CliErrorFatal, w3)" by blast
  show ?thesis
    using 1 2 3 execfile_is_first_token [OF _ 1] execfile_is_first_token [OF _ 2]
      execfile_is_first_token [OF _ 3]
    by simp
qed

text \<open>
  Claim C6.  On a vector of one token \<open>cli_parse\<close> returns \<open>CliErrorOk\<close>,
  \<open>execfile\<close> is that token and the three lists are empty; nothing is printed.
\<close>

theorem only_execfile_is_ok:
  "\<exists>w. cli_parse C0 [exe] w0 = Returns (CliErrorOk, w) \<and> execfile (cli w) = Some exe \<and>
       da_list (args (cli w)) = [] \<and> da_list (cmd_options (cli w)) = [] \<and>
       da_list (program_options (cli w)) = [] \<and>
       length_f (args (cli w)) = 0 \<and> length_f (cmd_options (cli w)) = 0 \<and>
       length_f (program_options (cli w)) = 0 \<and> stderr w = stderr w0"
  by (simp add: cli_parse_single zero_array_list) (simp add: zero_array_def)

text \<open>
  A violation on the heap build.  Let the parse of a prefix of the vector succeed and leave the world
  \<open>w\<close>, and let the next token break the grammar there: \<open>--\<close> when \<open>args\<close>
  holds a token, or a positional token when \<open>cmd_options\<close> holds one.  Then the parse
  of the whole vector returns \<open>CliErrorUser\<close> in the world \<open>w\<close> with one more
  message: no token after the offending one is looked at, and the aggregate is what the
  prefix left, nothing of it taken back.
\<close>

theorem violation_is_eager:
  assumes "cli_parse C0 (exe # pre) w0 = Returns (CliErrorOk, w)"
    and "(t = ''--'' \<and> da_list (args (cli w)) \<noteq> []) \<or>
         ((t = [] \<or> hd t \<noteq> CHR ''-'') \<and> da_list (cmd_options (cli w)) \<noteq> [])"
  shows "cli_parse C0 (exe # pre @ t # post) w0 =
           Returns (CliErrorUser, w\<lparr>stderr := stderr w @
             [if t = ''--'' then DoubleDashAfterPositional t (last (da_list (args (cli w))))
              else PositionalAfterCmdOption t]\<rparr>)"
  using assms(1)
proof (cases rule: cli_parse_cases)
  case (single exe')
  then show ?thesis using assms(2) by (simp add: zero_array_list)
next
  case (fatal exe' rest)
  then show ?thesis by simp
next
  case (loop exe' rest)
  then have l: "cli_parse_loop pre False (entry_world C0 exe w0) = Returns (CliErrorOk, w)"
    and ne: "pre \<noteq> []" and ok: "prologue_ok (alloc w0)" by simp_all
  have i: "cli_inv w" using loop_Ok_inv [OF entry_world_inv l] .
  from loop_append [OF l] obtain b1 where
    a: "\<And>rest. cli_parse_loop (pre @ rest) False (entry_world C0 exe w0) = cli_parse_loop rest b1 w"
    by blast
  have "cli_parse C0 (exe # pre @ t # post) w0 = cli_parse_loop (t # post) b1 w"
    using cli_parse_entry [of "pre @ t # post" w0 C0 exe] ok a by simp
  also have "\<dots> = Returns (CliErrorUser, w\<lparr>stderr := stderr w @
             [if t = ''--'' then DoubleDashAfterPositional t (last (da_list (args (cli w))))
              else PositionalAfterCmdOption t]\<rparr>)"
  proof (cases "t = ''--''")
    case True
    then have "da_list (args (cli w)) \<noteq> []" using assms(2) by auto
    then show ?thesis using step_sep [OF i, of b1] True by simp
  next
    case False
    then have p: "t = [] \<or> hd t \<noteq> CHR ''-''" and c: "da_list (cmd_options (cli w)) \<noteq> []"
      using assms(2) by auto
    have "c_at t 0 \<noteq> CHR ''-''" using p by (cases t) (auto simp: c_at_def)
    from step_pos_error [OF i this c, of b1] False show ?thesis by simp
  qed
  finally show ?thesis .
qed

theorem violation_is_eager_witness:
  "\<exists>w. cli_parse 5 [''prog'', ''build'', ''--release'', ''-j''] caller_world
           = Returns (CliErrorOk, w) \<and>
        da_list (args (cli w)) = [''build''] \<and>
        da_list (cmd_options (cli w)) = [''--release'', ''-j''] \<and>
        cli_parse 5 [''prog'', ''build'', ''--release'', ''-j'', ''4'', ''-x''] caller_world
           = Returns (CliErrorUser, w\<lparr>stderr := stderr w @ [PositionalAfterCmdOption ''4'']\<rparr>) \<and>
        cli_parse 5 [''prog'', ''build'', ''--release'', ''-j'', ''--'', ''-x''] caller_world
           = Returns (CliErrorUser, w\<lparr>stderr := stderr w @
                [DoubleDashAfterPositional ''--'' ''build'']\<rparr>)"
proof -
  have "observe (cli_parse 5 [''prog'', ''build'', ''--release'', ''-j''] caller_world) =
          Returns (CliErrorOk, Some ''prog'', [], [''build''], [''--release'', ''-j''], [])"
    by code_simp
  from observe_Returns [OF this] obtain w where
    w: "cli_parse 5 [''prog'', ''build'', ''--release'', ''-j''] caller_world
           = Returns (CliErrorOk, w)" "da_list (args (cli w)) = [''build'']"
        "da_list (cmd_options (cli w)) = [''--release'', ''-j'']" by blast
  from w violation_is_eager [OF w(1), of "''4''" "[''-x'']"]
     violation_is_eager [OF w(1), of "''--''" "[''-x'']"]
  show ?thesis by (intro exI [of _ w]) simp
qed

section \<open>Allocation failures\<close>

lemma alloc_next_plan:
  "alloc_ok h \<Longrightarrow> \<exists>used. plan h = used @ plan (alloc_next h) \<and> False \<notin> set used"
proof (cases "plan h")
  case Nil
  then show ?thesis by (simp add: alloc_next_def)
next
  case (Cons ok r)
  assume "alloc_ok h"
  with Cons have "ok" by (simp add: alloc_ok_def)
  with Cons have "plan h = [True] @ plan (alloc_next h) \<and> False \<notin> set [True]"
    by (simp add: alloc_next_def)
  then show ?thesis by blast
qed

lemma da_append_plan:
  assumes "cli_da_append a item h = Returns (a', h')"
  shows "\<exists>used. plan h = used @ plan h' \<and> False \<notin> set used"
proof (cases "capacity a < length_f a + 1")
  case True
  with assms have ok: "alloc_ok h" and h': "plan h' = plan (alloc_next h)"
    by (auto simp: cli_da_append_def obind_def Let_def CLI_REALLOC_def
             split: if_splits option.splits)
  from alloc_next_plan [OF ok] h' show ?thesis by simp
next
  case False
  with assms have "h' = h"
    by (auto simp: cli_da_append_def obind_def Let_def split: if_splits option.splits)
  then show ?thesis by simp
qed

lemma da_append_refused:
  "capacity a < length_f a + 1 \<Longrightarrow> \<not> alloc_ok h \<Longrightarrow> cli_da_append a item h = AssertFailed"
  by (simp add: cli_da_append_def obind_def Let_def CLI_REALLOC_def)

lemma step_plan:
  assumes "cli_parse_step t b w = Returns s"
  shows "\<exists>used. plan (alloc w) =
           used @ plan (alloc (case s of Continue b' w' \<Rightarrow> w' | Stop e w' \<Rightarrow> w')) \<and>
           False \<notin> set used"
proof (cases s)
  case (Stop e w')
  with assms step_Stop [of t b w e w'] show ?thesis by simp
next
  case (Continue b' w')
  with assms have
    "w' = w \<or> (\<exists>a a' h'. cli_da_append a t (alloc w) = Returns (a', h') \<and> alloc w' = h')"
    by (auto simp: cli_parse_step_def obind_def split: if_splits option.splits outcome.splits)
  then show ?thesis using Continue da_append_plan by auto
qed

lemma loop_plan:
  "cli_parse_loop ts b w = Returns (e, w') \<Longrightarrow>
     \<exists>used. plan (alloc w) = used @ plan (alloc w') \<and> False \<notin> set used"
proof (induction ts arbitrary: b w)
  case Nil
  then show ?case by simp
next
  case (Cons t ts)
  show ?case
  proof (cases "cli_parse_step t b w")
    case (Returns s)
    from step_plan [OF Returns] obtain u1 where
      u1: "plan (alloc w) = u1 @ plan (alloc (case s of Continue b' w' \<Rightarrow> w' | Stop e w' \<Rightarrow> w'))"
          "False \<notin> set u1" by blast
    show ?thesis
    proof (cases s)
      case (Continue b1 w1)
      with Returns Cons.prems have "cli_parse_loop ts b1 w1 = Returns (e, w')" by simp
      from Cons.IH [OF this] obtain u2 where
        "plan (alloc w1) = u2 @ plan (alloc w')" "False \<notin> set u2" by blast
      with u1 Continue have "plan (alloc w) = (u1 @ u2) @ plan (alloc w') \<and> False \<notin> set (u1 @ u2)"
        by simp
      then show ?thesis by blast
    next
      case (Stop e1 w1)
      with Returns Cons.prems u1 show ?thesis by auto
    qed
  qed (use Cons.prems in simp_all)
qed

lemma prologue_ok_iff: "prologue_ok h = (False \<notin> set (take 3 (plan h)))"
proof (cases "plan h")
  case Nil
  then show ?thesis by (simp add: prologue_ok_def alloc_ok_def alloc_next_def)
next
  case c1: (Cons x1 r1)
  show ?thesis
  proof (cases r1)
    case Nil
    with c1 show ?thesis by (auto simp: prologue_ok_def alloc_ok_def alloc_next_def)
  next
    case c2: (Cons x2 r2)
    show ?thesis
    proof (cases r2)
      case Nil
      with c1 c2 show ?thesis
        by (auto simp: prologue_ok_def alloc_ok_def alloc_next_def)
    next
      case (Cons x3 r3)
      with c1 c2 show ?thesis
        by (auto simp: prologue_ok_def alloc_ok_def alloc_next_def numeral_3_eq_3)
    qed
  qed
qed

lemma prologue_plan:
  assumes "prologue_ok h"
  shows "\<exists>used. plan h = used @ plan (alloc_next (alloc_next (alloc_next h))) \<and>
                False \<notin> set used"
proof -
  from assms have ok: "alloc_ok h" "alloc_ok (alloc_next h)" "alloc_ok (alloc_next (alloc_next h))"
    by (simp_all add: prologue_ok_def)
  from alloc_next_plan [OF ok(1)] obtain u1 where
    u1: "plan h = u1 @ plan (alloc_next h)" "False \<notin> set u1" by blast
  from alloc_next_plan [OF ok(2)] obtain u2 where
    u2: "plan (alloc_next h) = u2 @ plan (alloc_next (alloc_next h))" "False \<notin> set u2" by blast
  from alloc_next_plan [OF ok(3)] obtain u3 where
    u3: "plan (alloc_next (alloc_next h)) = u3 @ plan (alloc_next (alloc_next (alloc_next h)))"
      "False \<notin> set u3" by blast
  from u1 u2 u3 have "plan h = (u1 @ u2 @ u3) @ plan (alloc_next (alloc_next (alloc_next h))) \<and>
      False \<notin> set (u1 @ u2 @ u3)" by simp
  then show ?thesis by blast
qed

lemma cli_parse_fatal_iff:
  "(\<exists>w'. cli_parse C0 argv w = Returns (CliErrorFatal, w')) =
     (1 < length argv \<and> False \<in> set (take 3 (plan (alloc w))))"
proof
  assume "\<exists>w'. cli_parse C0 argv w = Returns (CliErrorFatal, w')"
  then obtain w' where r: "cli_parse C0 argv w = Returns (CliErrorFatal, w')" by blast
  then show "1 < length argv \<and> False \<in> set (take 3 (plan (alloc w)))"
  proof (cases rule: cli_parse_cases)
    case (single exe)
    then show ?thesis by simp
  next
    case (fatal exe rest)
    then show ?thesis by (cases rest) (simp_all add: prologue_ok_iff)
  next
    case (loop exe rest)
    with loop_not_fatal [OF loop(4)] show ?thesis by simp
  qed
next
  assume a: "1 < length argv \<and> False \<in> set (take 3 (plan (alloc w)))"
  then obtain exe rest where argv: "argv = exe # rest" "rest \<noteq> []"
    by (cases argv) auto
  from a have "\<not> prologue_ok (alloc w)" by (simp add: prologue_ok_iff)
  from cli_parse_fatal [OF argv(2) this, of C0 exe] argv(1)
  show "\<exists>w'. cli_parse C0 argv w = Returns (CliErrorFatal, w')" by auto
qed

lemma cli_parse_plan:
  assumes "cli_parse C0 argv w = Returns (e, w')" "e \<noteq> CliErrorFatal"
  shows "\<exists>used. plan (alloc w) = used @ plan (alloc w') \<and> False \<notin> set used"
  using assms(1)
proof (cases rule: cli_parse_cases)
  case (single exe)
  then show ?thesis by simp
next
  case (fatal exe rest)
  with assms(2) show ?thesis by simp
next
  case (loop exe rest)
  from prologue_plan [OF loop(3)] obtain u1 where
    u1: "plan (alloc w) = u1 @ plan (alloc (entry_world C0 exe w))" "False \<notin> set u1"
    by (auto simp: entry_world_def)
  from loop_plan [OF loop(4)] obtain u2 where
    u2: "plan (alloc (entry_world C0 exe w)) = u2 @ plan (alloc w')" "False \<notin> set u2" by blast
  from u1 u2 have "plan (alloc w) = (u1 @ u2) @ plan (alloc w') \<and> False \<notin> set (u1 @ u2)" by simp
  then show ?thesis by blast
qed

text \<open>
  Claim C8 as stated fails.  With six program options and an allocator that grants the
  three blocks of the prologue and refuses the next call, the sixth append needs a
  reallocation, the reallocation fails, and \<open>cli_da_append\<close> ends in
  \<open>CLI_ASSERT(0)\<close>: \<open>cli_parse\<close> does not return, so no \<open>CliErrorFatal\<close>
  reaches the caller.
\<close>

theorem growth_failure_not_reported_counterexample:
  "cli_parse 5 [''prog'', ''-a'', ''-b'', ''-c'', ''-d'', ''-e'', ''-f''] growth_world = AssertFailed"
proof -
  have "observe (cli_parse 5 [''prog'', ''-a'', ''-b'', ''-c'', ''-d'', ''-e'', ''-f''] growth_world)
          = AssertFailed"
    by code_simp
  then show ?thesis by (simp add: observe_def split: outcome.splits prod.splits)
qed

text \<open>
  Claim C8, amended.  \<open>cli_parse\<close> returns \<open>CliErrorFatal\<close> exactly when the
  vector has more than one token and one of the three allocations of the prologue fails.
  Whenever it returns anything else, every allocator call made during the parse had
  succeeded; and an append whose reallocation is refused ends in \<open>CLI_ASSERT(0)\<close>.
\<close>

theorem fatal_is_initial_allocation:
  "((\<exists>w'. cli_parse C0 argv w = Returns (CliErrorFatal, w')) =
      (1 < length argv \<and> False \<in> set (take 3 (plan (alloc w))))) \<and>
   (\<forall>e w'. cli_parse C0 argv w = Returns (e, w') \<longrightarrow> e \<noteq> CliErrorFatal \<longrightarrow>
      (\<exists>used. plan (alloc w) = used @ plan (alloc w') \<and> False \<notin> set used)) \<and>
   (\<forall>a item h. capacity a < length_f a + 1 \<longrightarrow> \<not> alloc_ok h \<longrightarrow>
      cli_da_append a item h = AssertFailed)"
  using cli_parse_fatal_iff [of C0 argv w] cli_parse_plan [of C0 argv w] da_append_refused
  by blast

theorem fatal_is_initial_allocation_witness:
  "(\<exists>w'. cli_parse 5 [''prog'', ''a'']
            (caller_world\<lparr>alloc := \<lparr>plan = [True, False], reallocs = 0\<rparr>\<rparr>)
          = Returns (CliErrorFatal, w')) \<and>
   cli_da_append \<lparr>length_f = 5, capacity = 5, data = Some (replicate 5 (Some ''a''))\<rparr> ''b''
       \<lparr>plan = [False], reallocs = 0\<rparr> = AssertFailed"
proof -
  have 1: "(1::nat) < length [''prog'', ''a''] \<and>
      False \<in> set (take 3 (plan (alloc (caller_world\<lparr>alloc := \<lparr>plan = [True, False], reallocs = 0\<rparr>\<rparr>))))"
    by simp
  have 2: "capacity \<lparr>length_f = 5, capacity = 5, data = Some (replicate 5 (Some ''a''))\<rparr>
        < length_f \<lparr>length_f = 5, capacity = 5, data = Some (replicate 5 (Some ''a''))\<rparr> + 1"
    "\<not> alloc_ok \<lparr>plan = [False], reallocs = 0\<rparr>"
    by (simp_all add: alloc_ok_def)
  show ?thesis
    using fatal_is_initial_allocation [of 5 "[''prog'', ''a'']"
       "caller_world\<lparr>alloc := \<lparr>plan = [True, False], reallocs = 0\<rparr>\<rparr>"] 1 2
    by blast
qed

section \<open>Growth of the heap-backed container\<close>

lemma ceiling_bracket:
  fixes L :: real
  assumes "k = nat \<lceil>L\<rceil>"
  shows "L \<le> real k" and "k \<noteq> 0 \<Longrightarrow> real (k - 1) < L"
proof -
  define c where "c = \<lceil>L\<rceil>"
  have k: "k = nat c" using assms by (simp add: c_def)
  have Lc: "L \<le> of_int c" unfolding c_def by (rule le_of_int_ceiling)
  have "c \<le> int k" unfolding k by linarith
  then have "(of_int c :: real) \<le> of_int (int k)" by (simp only: of_int_le_iff)
  then have "(of_int c :: real) \<le> real k" by (simp only: of_int_of_nat_eq)
  with Lc show "L \<le> real k" by linarith
  show "real (k - 1) < L" if "k \<noteq> 0"
  proof -
    from that have ck: "int k = c" and k1: "1 \<le> k" unfolding k by linarith+
    have "c - 1 < \<lceil>L\<rceil>" unfolding c_def by linarith
    then have "(of_int (c - 1) :: real) < L" by (simp only: less_ceiling_iff)
    moreover have "int (k - 1) = c - 1" using ck k1 by linarith
    then have "(of_int (c - 1) :: real) = of_int (int (k - 1))" by (simp only:)
    then have "(of_int (c - 1) :: real) = real (k - 1)" by (simp only: of_int_of_nat_eq)
    ultimately show ?thesis by linarith
  qed
qed

lemma doublings_log:
  assumes "1 \<le> C0" "1 \<le> N"
  shows "doublings C0 N (nat \<lceil>log 2 (real N / real C0)\<rceil>)"
proof -
  define x where "x = real N / real C0"
  define L where "L = log 2 x"
  define k where "k = nat \<lceil>L\<rceil>"
  have x: "0 < x" using assms by (simp add: x_def)
  have c0: "0 < real C0" using assms by simp
  have two: "(1::real) < 2" "(0::real) < 2" by simp_all
  from ceiling_bracket [OF k_def] have Lk: "L \<le> real k"
    and Lk': "k \<noteq> 0 \<Longrightarrow> real (k - 1) < L" by blast+
  have "x \<le> 2 powr real k"
    using Lk unfolding L_def by (simp only: log_le_iff [OF two(1) x])
  also have "2 powr real k = 2 ^ k" by (rule powr_realpow [OF two(2)])
  finally have "real N / real C0 \<le> 2 ^ k" unfolding x_def .
  then have "real N \<le> 2 ^ k * real C0" using c0 by (simp only: pos_divide_le_eq)
  also have "2 ^ k * real C0 = real (C0 * 2 ^ k)" by simp
  finally have up: "N \<le> C0 * 2 ^ k" by (simp only: of_nat_le_iff)
  have lo: "C0 * 2 ^ (k - 1) < N" if "k \<noteq> 0"
  proof -
    have "2 powr real (k - 1) < x"
      using Lk' [OF that] unfolding L_def by (simp only: less_log_iff [OF two(1) x])
    moreover have "2 powr real (k - 1) = 2 ^ (k - 1)" by (rule powr_realpow [OF two(2)])
    ultimately have "2 ^ (k - 1) < real N / real C0" unfolding x_def by simp
    then have "2 ^ (k - 1) * real C0 < real N" using c0 by (simp only: pos_less_divide_eq)
    moreover have "2 ^ (k - 1) * real C0 = real (C0 * 2 ^ (k - 1))" by simp
    ultimately have "real (C0 * 2 ^ (k - 1)) < real N" by (simp only:)
    then show ?thesis by (simp only: of_nat_less_iff)
  qed
  have "doublings C0 N k" unfolding doublings_def using up lo by blast
  then show ?thesis unfolding k_def L_def x_def .
qed

lemma da_append_all_snoc:
  "da_append_all (xs @ [x]) a h =
     obind (da_append_all xs a h) (\<lambda>(a', h'). cli_da_append a' x h')"
proof (induction xs arbitrary: a h)
  case Nil
  show ?case by (cases "cli_da_append a x h") (auto simp: obind_def)
next
  case (Cons y ys)
  show ?case
    by (cases "cli_da_append a y h") (auto simp: obind_def Cons.IH)
qed

lemma alloc_next_keeps: "False \<notin> set (plan h) \<Longrightarrow> False \<notin> set (plan (alloc_next h))"
  by (cases "plan h") (auto simp: alloc_next_def)

lemma never_fails_ok: "False \<notin> set (plan h) \<Longrightarrow> alloc_ok h"
  by (cases "plan h") (auto simp: alloc_ok_def)

lemma da_append_step:
  assumes "da_inv a" "cli_da_append a item h = Returns (a', h')"
  shows "(length_f a < capacity a \<and> capacity a' = capacity a \<and> h' = h) \<or>
         (length_f a = capacity a \<and> capacity a' = capacity a * 2 \<and>
          h' = (alloc_next h)\<lparr>reallocs := Suc (reallocs h)\<rparr>)"
proof (cases "length_f a < capacity a")
  case True
  have "Returns (a', h') = Returns (a\<lparr>length_f := length_f a + 1,
                data := Some ((the (data a))[unat (length_f a) := Some item])\<rparr>, h)"
    using da_append_room [OF assms(1) True, of item h] assms(2) by simp
  then have "capacity a' = capacity a" "h' = h" by simp_all
  then show ?thesis using True by blast
next
  case False
  have "unat (length_f a) \<le> unat (capacity a)"
    using assms(1) by (auto simp: da_inv_def split: option.splits)
  then have eq: "length_f a = capacity a" using False
    by (simp add: word_less_nat_alt word_unat_eq_iff)
  define A where "A = a\<lparr>length_f := length_f a + 1, capacity := capacity a * 2,
                data := Some ((take (unat (capacity a * 2)) (the (data a))
                       @ replicate (unat (capacity a * 2) - length (the (data a))) None)
                         [unat (length_f a) := Some item])\<rparr>"
  define H where "H = (alloc_next h)\<lparr>reallocs := Suc (reallocs h)\<rparr>"
  have "Returns (a', h') =
     (if \<not> unat (length_f a) < (unat (capacity a) * 2) mod 65536 then
        (if capacity a = 65535 \<or> alloc_ok h then Undefined else AssertFailed)
      else if \<not> alloc_ok h then AssertFailed
      else Returns (A, H))"
    using da_append_full [OF assms(1) False, of item h] assms(2) unfolding A_def H_def by simp
  then have "a' = A" "h' = H" by (simp_all split: if_splits)
  then have "capacity a' = capacity a * 2" "h' = (alloc_next h)\<lparr>reallocs := Suc (reallocs h)\<rparr>"
    by (simp_all add: A_def H_def)
  then show ?thesis using eq by blast
qed

lemma grow_run:
  assumes "1 \<le> C0" "False \<notin> set (plan h)"
  shows "doublings C0 (length items) k \<Longrightarrow> C0 * 2 ^ k < 65536 \<Longrightarrow>
     \<exists>a' h'. da_append_all items (fresh_array C0) h = Returns (a', h') \<and> da_inv a' \<and>
        unat (length_f a') = length items \<and> unat (capacity a') = C0 * 2 ^ k \<and>
        da_list a' = items \<and> reallocs h' = reallocs h + k \<and> False \<notin> set (plan h')"
proof (induction items arbitrary: k rule: rev_induct)
  case Nil
  then have k: "k = 0" by (simp add: doublings_def)
  with Nil.prems(2) have "unat (of_nat C0 :: 16 word) = C0" by (simp add: unat_of_nat)
  then show ?case using k assms(2)
    by (simp add: fresh_array_inv fresh_array_list) (simp add: fresh_array_def)
next
  case (snoc x xs)
  let ?n = "length xs"
  from snoc.prems(1) have up: "Suc ?n \<le> C0 * 2 ^ k" and lo: "k = 0 \<or> C0 * 2 ^ (k - 1) < Suc ?n"
    by (simp_all add: doublings_def)
  show ?case
  proof (cases "k = 0 \<or> C0 * 2 ^ (k - 1) < ?n")
    case True
    with up have d: "doublings C0 ?n k" by (simp add: doublings_def)
    from snoc.IH [OF d snoc.prems(2)] obtain a1 h1 where
      r: "da_append_all xs (fresh_array C0) h = Returns (a1, h1)" and i: "da_inv a1" and
      l: "unat (length_f a1) = ?n" and c: "unat (capacity a1) = C0 * 2 ^ k" and
      dl: "da_list a1 = xs" and re: "reallocs h1 = reallocs h + k" and
      pl: "False \<notin> set (plan h1)" by blast
    have room: "length_f a1 < capacity a1" using l c up by (simp add: word_less_nat_alt)
    have "cli_da_append a1 x h1 = Returns (a1\<lparr>length_f := length_f a1 + 1,
                data := Some ((the (data a1))[unat (length_f a1) := Some x])\<rparr>, h1)"
      by (rule da_append_room [OF i room])
    then obtain a2 where a2: "cli_da_append a1 x h1 = Returns (a2, h1)"
      and cap2: "capacity a2 = capacity a1" by simp
    from da_append_Returns [OF i a2]
    have r2: "da_inv a2" "da_list a2 = da_list a1 @ [x]" "unat (length_f a2) = Suc (unat (length_f a1))"
      by auto
    have run: "da_append_all (xs @ [x]) (fresh_array C0) h = Returns (a2, h1)"
      by (simp add: da_append_all_snoc r obind_def a2)
    show ?thesis
      using run r2 cap2 c re pl dl l by auto
  next
    case False
    define m where "m = C0 * 2 ^ (k - 1)"
    from False have k1: "1 \<le> k" and "?n \<le> m" by (auto simp: m_def)
    moreover from lo k1 have "m < Suc ?n" by (auto simp: m_def)
    ultimately have n: "?n = m" by linarith
    have km: "C0 * 2 ^ k = 2 * m" using k1 by (cases k) (simp_all add: m_def)
    have mpos: "0 < m" using assms(1) by (simp add: m_def)
    have b: "m < 65536" using snoc.prems(2) km by linarith
    have lo': "k - 1 = 0 \<or> C0 * 2 ^ (k - 1 - 1) < m"
    proof (cases "k - 1")
      case 0
      then show ?thesis by simp
    next
      case (Suc j)
      have "0 < C0 * 2 ^ j" using assms(1) by simp
      moreover have "m = 2 * (C0 * 2 ^ j)" using Suc by (simp add: m_def)
      ultimately have "C0 * 2 ^ j < m" by linarith
      then show ?thesis using Suc by simp
    qed
    have d: "doublings C0 ?n (k - 1)"
      unfolding doublings_def using n lo' by (simp add: m_def)
    have b': "C0 * 2 ^ (k - 1) < 65536" using b by (simp add: m_def)
    from snoc.IH [OF d b'] obtain a1 h1 where
      r: "da_append_all xs (fresh_array C0) h = Returns (a1, h1)" and i: "da_inv a1" and
      l: "unat (length_f a1) = ?n" and c': "unat (capacity a1) = C0 * 2 ^ (k - 1)" and
      dl: "da_list a1 = xs" and re: "reallocs h1 = reallocs h + (k - 1)" and
      pl: "False \<notin> set (plan h1)" by blast
    have c: "unat (capacity a1) = m" using c' by (simp add: m_def)
    have lm: "unat (length_f a1) = m" using l n by simp
    have full: "\<not> length_f a1 < capacity a1" using lm c by (simp add: word_less_nat_alt)
    have "2 * m < 65536" using snoc.prems(2) km by linarith
    then have c2: "unat (capacity a1) * 2 mod 65536 = 2 * m" using c by simp
    have lt: "unat (length_f a1) < unat (capacity a1) * 2 mod 65536"
      unfolding c2 lm using mpos by linarith
    have ok: "alloc_ok h1" using never_fails_ok [OF pl] .
    have "cli_da_append a1 x h1 \<noteq> AssertFailed" "cli_da_append a1 x h1 \<noteq> Undefined"
      using da_append_full [OF i full, of x h1] lt ok by simp_all
    then obtain a2 h2 where a2: "cli_da_append a1 x h1 = Returns (a2, h2)"
      by (cases "cli_da_append a1 x h1") auto
    from da_append_step [OF i a2] full
    have s2: "capacity a2 = capacity a1 * 2" "h2 = (alloc_next h1)\<lparr>reallocs := Suc (reallocs h1)\<rparr>"
      by auto
    from da_append_Returns [OF i a2]
    have r2: "da_inv a2" "da_list a2 = da_list a1 @ [x]" "unat (length_f a2) = Suc (unat (length_f a1))"
      by auto
    have cap2: "unat (capacity a2) = C0 * 2 ^ k"
      unfolding s2(1) unat_dbl16 c2 km ..
    have re2: "reallocs h2 = reallocs h + k" using re k1 by (simp add: s2(2))
    have pl2: "False \<notin> set (plan h2)" using alloc_next_keeps [OF pl] by (simp add: s2(2) alloc_next_def)
    have run: "da_append_all (xs @ [x]) (fresh_array C0) h = Returns (a2, h2)"
      by (simp add: da_append_all_snoc r obind_def a2)
    show ?thesis
      using run r2(1) cap2 re2 pl2 r2(2,3) dl l by auto
  qed
qed

section \<open>The number of reallocations\<close>

lemma init_ok:
  "alloc_ok h \<Longrightarrow> cli_da_init C0 h = (fresh_array C0, alloc_next h)"
  by (simp add: cli_da_init_def CLI_MALLOC_def fresh_array_def)

lemma reallocs_alloc_next: "reallocs (alloc_next h) = reallocs h"
  by (simp add: alloc_next_def)

lemma grow_from_init:
  assumes "1 \<le> C0" "False \<notin> set (plan h)" "doublings C0 (length items) k" "C0 * 2 ^ k < 65536"
  shows "\<exists>a' h'. da_append_all items (fst (cli_da_init C0 h)) (snd (cli_da_init C0 h))
             = Returns (a', h') \<and> da_inv a' \<and>
           unat (length_f a') = length items \<and> unat (capacity a') = C0 * 2 ^ k \<and>
           da_list a' = items \<and> reallocs h' = reallocs h + k \<and> False \<notin> set (plan h')"
proof -
  have i: "cli_da_init C0 h = (fresh_array C0, alloc_next h)"
    using init_ok [OF never_fails_ok [OF assms(2)]] .
  from grow_run [OF assms(1) alloc_next_keeps [OF assms(2)] assms(3,4)]
  show ?thesis by (simp add: i reallocs_alloc_next)
qed

lemma spec_reallocs_1_5: "spec_reallocs 1 5 \<le> - 1"
proof -
  have "(1::real) / 5 \<le> 2 powr (- 1)" by (simp add: powr_minus)
  moreover have "(1::real) < 2" "(0::real) < 1 / 5" by simp_all
  ultimately have "log 2 ((1::real) / 5) \<le> - 1" by (simp only: log_le_iff)
  then have "log 2 ((1::real) / 5) \<le> of_int (- 1)" by simp
  then have "\<lceil>log 2 ((1::real) / 5)\<rceil> \<le> - 1" by (simp only: ceiling_le_iff)
  then show ?thesis by (simp add: spec_reallocs_def)
qed

lemma spec_reallocs_6_5: "spec_reallocs 6 5 = 1"
proof -
  have "0 < log 2 ((6::real) / 5)" by simp
  moreover have "log 2 ((6::real) / 5) \<le> 1" by simp
  ultimately have "\<lceil>log 2 ((6::real) / 5)\<rceil> = 1" by (intro ceiling_unique) simp_all
  then show ?thesis by (simp add: spec_reallocs_def)
qed

text \<open>
  Claim C9 as stated fails.  One item appended to a fresh container of capacity 5 causes no
  reallocation, while \<open>ceil (log2 (1 / 5))\<close> is negative.
\<close>

theorem small_run_counterexample:
  "\<exists>a' h'. da_append_all [''a''] (fst (cli_da_init 5 quiet_allocator))
               (snd (cli_da_init 5 quiet_allocator)) = Returns (a', h') \<and>
           reallocs h' = 0 \<and> da_list a' = [''a''] \<and> spec_reallocs 1 5 \<le> - 1"
proof -
  have d: "doublings 5 (length [''a'']) 0" by (simp add: doublings_def)
  have p: "False \<notin> set (plan quiet_allocator)" by (simp add: quiet_allocator_def)
  from grow_from_init [OF _ p d] spec_reallocs_1_5 show ?thesis
    by (auto simp: quiet_allocator_def)
qed

text \<open>
  Claim C9, amended.  Let \<open>C0\<close> be at least 1, let the allocator never fail, and let
  \<open>k\<close> be \<open>ceil (log2 (N / C0))\<close>, or 0 when that is negative, with
  \<open>C0 * 2 ^ k\<close> below \<open>2 ^ 16\<close>.  Appending \<open>N\<close> items (at least one) to the
  container \<open>cli_da_init\<close> made returns, after exactly \<open>k\<close> reallocations; the
  capacity is then \<open>C0 * 2 ^ k\<close>, which is at least \<open>N\<close>, and the container holds
  the items in order.  Every append that returns keeps the elements, adds the item at the
  end, and either leaves the capacity or reallocates once and doubles it.
\<close>

theorem owned_growth:
  assumes "1 \<le> C0" "items \<noteq> []" "False \<notin> set (plan h)"
    and "C0 * 2 ^ nat (spec_reallocs (length items) C0) < 65536"
  shows "(\<exists>a' h'. da_append_all items (fst (cli_da_init C0 h)) (snd (cli_da_init C0 h))
              = Returns (a', h') \<and>
            int (reallocs h' - reallocs h) = max 0 (spec_reallocs (length items) C0) \<and>
            unat (capacity a') = C0 * 2 ^ (reallocs h' - reallocs h) \<and>
            length items \<le> unat (capacity a') \<and>
            unat (length_f a') = length items \<and> da_list a' = items) \<and>
         (\<forall>a x g a2 g2. da_inv a \<longrightarrow> cli_da_append a x g = Returns (a2, g2) \<longrightarrow>
            da_list a2 = da_list a @ [x] \<and>
            (reallocs g2 = reallocs g \<and> capacity a2 = capacity a \<or>
             reallocs g2 = Suc (reallocs g) \<and> capacity a2 = capacity a * 2))"
proof
  define k where "k = nat (spec_reallocs (length items) C0)"
  have n: "1 \<le> length items" using assms(2) by (cases items) simp_all
  have d: "doublings C0 (length items) k"
    unfolding k_def spec_reallocs_def by (rule doublings_log [OF assms(1) n])
  have b: "C0 * 2 ^ k < 65536" using assms(4) by (simp add: k_def)
  from grow_from_init [OF assms(1,3) d b] obtain a' h' where
    r: "da_append_all items (fst (cli_da_init C0 h)) (snd (cli_da_init C0 h)) = Returns (a', h')"
    and l: "unat (length_f a') = length items" and c: "unat (capacity a') = C0 * 2 ^ k"
    and dl: "da_list a' = items" and re: "reallocs h' = reallocs h + k" by blast
  have k': "reallocs h' - reallocs h = k" using re by simp
  have "int k = max 0 (spec_reallocs (length items) C0)" unfolding k_def by linarith
  moreover have "length items \<le> C0 * 2 ^ k" using d by (simp add: doublings_def)
  ultimately show "\<exists>a' h'. da_append_all items (fst (cli_da_init C0 h)) (snd (cli_da_init C0 h))
              = Returns (a', h') \<and>
            int (reallocs h' - reallocs h) = max 0 (spec_reallocs (length items) C0) \<and>
            unat (capacity a') = C0 * 2 ^ (reallocs h' - reallocs h) \<and>
            length items \<le> unat (capacity a') \<and>
            unat (length_f a') = length items \<and> da_list a' = items"
    using r l c dl k' by (intro exI [of _ a'] exI [of _ h']) simp
next
  show "\<forall>a x g a2 g2. da_inv a \<longrightarrow> cli_da_append a x g = Returns (a2, g2) \<longrightarrow>
            da_list a2 = da_list a @ [x] \<and>
            (reallocs g2 = reallocs g \<and> capacity a2 = capacity a \<or>
             reallocs g2 = Suc (reallocs g) \<and> capacity a2 = capacity a * 2)"
  proof (intro allI impI)
    fix a x g a2 g2
    assume i: "da_inv a" and r: "cli_da_append a x g = Returns (a2, g2)"
    from da_append_Returns [OF i r] have "da_list a2 = da_list a @ [x]" by blast
    moreover from da_append_step [OF i r]
    have "reallocs g2 = reallocs g \<and> capacity a2 = capacity a \<or>
          reallocs g2 = Suc (reallocs g) \<and> capacity a2 = capacity a * 2"
      by (auto simp: alloc_next_def)
    ultimately show "da_list a2 = da_list a @ [x] \<and>
            (reallocs g2 = reallocs g \<and> capacity a2 = capacity a \<or>
             reallocs g2 = Suc (reallocs g) \<and> capacity a2 = capacity a * 2)" by blast
  qed
qed

theorem owned_growth_witness:
  "\<exists>a' h'. da_append_all [''a'', ''b'', ''c'', ''d'', ''e'', ''f'']
               (fst (cli_da_init 5 quiet_allocator)) (snd (cli_da_init 5 quiet_allocator))
             = Returns (a', h') \<and>
           reallocs h' = 1 \<and> unat (capacity a') = 10 \<and> unat (length_f a') = 6 \<and>
           da_list a' = [''a'', ''b'', ''c'', ''d'', ''e'', ''f'']"
proof -
  let ?items = "[''a'', ''b'', ''c'', ''d'', ''e'', ''f'']"
  have len: "length ?items = 6" by simp
  have s: "spec_reallocs (length ?items) 5 = 1" unfolding len by (rule spec_reallocs_6_5)
  have p: "False \<notin> set (plan quiet_allocator)" "reallocs quiet_allocator = 0"
    by (simp_all add: quiet_allocator_def)
  have b: "(5::nat) * 2 ^ nat (spec_reallocs (length ?items) 5) < 65536" unfolding s by simp
  from owned_growth [of 5 ?items quiet_allocator, OF _ _ p(1) b]
  obtain a' h' where
    "da_append_all ?items (fst (cli_da_init 5 quiet_allocator)) (snd (cli_da_init 5 quiet_allocator))
       = Returns (a', h')"
    "int (reallocs h' - reallocs quiet_allocator) = max 0 (spec_reallocs (length ?items) 5)"
    "unat (capacity a') = 5 * 2 ^ (reallocs h' - reallocs quiet_allocator)"
    "unat (length_f a') = length ?items" "da_list a' = ?items"
    by auto
  then show ?thesis unfolding s p(2) len
    by (intro exI [of _ a'] exI [of _ h']) (simp add: spec_reallocs_6_5)
qed

lemma loop_program_options:
  assumes "\<forall>t\<in>set ts. c_at t 0 = CHR ''-'' \<and> \<not> (c_at t 1 = CHR ''-'' \<and> c_at t 2 = CHR 0x00)"
  shows "cli_parse_loop (ts @ rest) False w =
     (case da_append_all ts (program_options (cli w)) (alloc w) of
        Returns (a, h) \<Rightarrow> cli_parse_loop rest False (w\<lparr>cli := (cli w)\<lparr>program_options := a\<rparr>, alloc := h\<rparr>)
      | AssertFailed \<Rightarrow> AssertFailed | Undefined \<Rightarrow> Undefined)"
  using assms
proof (induction ts arbitrary: w)
  case Nil
  show ?case by simp
next
  case (Cons t ts)
  then have t: "c_at t 0 = CHR ''-''" "\<not> (c_at t 1 = CHR ''-'' \<and> c_at t 2 = CHR 0x00)"
    and ts: "\<forall>t\<in>set ts. c_at t 0 = CHR ''-'' \<and> \<not> (c_at t 1 = CHR ''-'' \<and> c_at t 2 = CHR 0x00)"
    by simp_all
  have s: "cli_parse_step t False w = obind (cli_da_append (program_options (cli w)) t (alloc w))
             (\<lambda>(a, h). Returns (Continue False (w\<lparr>cli := (cli w)\<lparr>program_options := a\<rparr>, alloc := h\<rparr>)))"
    using t by (auto simp add: cli_parse_step_def simp del: One_nat_def)
  show ?case
  proof (cases "cli_da_append (program_options (cli w)) t (alloc w)")
    case (Returns p)
    obtain a h where p: "p = (a, h)" by (cases p)
    show ?thesis using Returns p s Cons.IH [OF ts, of "w\<lparr>cli := (cli w)\<lparr>program_options := a\<rparr>, alloc := h\<rparr>"]
      by (simp add: obind_def split: outcome.splits)
  qed (simp_all add: s obind_def)
qed

lemma loop_args:
  assumes "\<forall>t\<in>set ts. c_at t 0 \<noteq> CHR ''-''" "\<not> 0 < length_f (cmd_options (cli w))"
  shows "cli_parse_loop (ts @ rest) b w =
     (case da_append_all ts (args (cli w)) (alloc w) of
        Returns (a, h) \<Rightarrow> cli_parse_loop rest (b \<or> ts \<noteq> []) (w\<lparr>cli := (cli w)\<lparr>args := a\<rparr>, alloc := h\<rparr>)
      | AssertFailed \<Rightarrow> AssertFailed | Undefined \<Rightarrow> Undefined)"
  using assms
proof (induction ts arbitrary: w b)
  case Nil
  show ?case by simp
next
  case (Cons t ts)
  then have t: "c_at t 0 \<noteq> CHR ''-''" and ts: "\<forall>t\<in>set ts. c_at t 0 \<noteq> CHR ''-''"
    by simp_all
  have s: "cli_parse_step t b w = obind (cli_da_append (args (cli w)) t (alloc w))
             (\<lambda>(a, h). Returns (Continue True (w\<lparr>cli := (cli w)\<lparr>args := a\<rparr>, alloc := h\<rparr>)))"
    using t Cons.prems(2) by (simp add: cli_parse_step_def)
  show ?case
  proof (cases "cli_da_append (args (cli w)) t (alloc w)")
    case (Returns p)
    obtain a h where p: "p = (a, h)" by (cases p)
    have c: "\<not> 0 < length_f (cmd_options (cli (w\<lparr>cli := (cli w)\<lparr>args := a\<rparr>, alloc := h\<rparr>)))"
      using Cons.prems(2) by simp
    show ?thesis using Returns p s Cons.IH [OF ts c, of True]
      by (simp add: obind_def split: outcome.splits)
  qed (simp_all add: s obind_def)
qed

lemma run_40961:
  assumes "False \<notin> set (plan h)"
  shows "da_append_all (replicate 40961 t) (fresh_array 5) h = Undefined"
proof -
  have d: "doublings 5 (length (replicate 40960 t)) 13" by (simp add: doublings_def)
  from grow_run [OF _ assms d] obtain a' h' where
    r: "da_append_all (replicate 40960 t) (fresh_array 5) h = Returns (a', h')"
    and i: "da_inv a'" and l: "unat (length_f a') = 40960" and c: "unat (capacity a') = 40960"
    and p: "False \<notin> set (plan h')" by auto
  have full: "\<not> length_f a' < capacity a'" using l c by (simp add: word_less_nat_alt)
  have w: "\<not> unat (length_f a') < unat (capacity a') * 2 mod 65536" unfolding l c by simp
  have u: "cli_da_append a' t h' = Undefined"
    using da_append_full [OF i full, of t h'] w never_fails_ok [OF p] by simp
  have "replicate 40961 t = replicate 40960 t @ [t]"
  proof -
    have "(40961::nat) = Suc 40960" by simp
    then show ?thesis by (simp only: replicate_Suc replicate_append_same)
  qed
  then show ?thesis using r u by (simp add: da_append_all_snoc obind_def)
qed

lemma heap_40961_options:
  "cli_parse 5 (''prog'' # replicate 40961 ''-a'') caller_world = Undefined"
proof -
  have ne: "replicate 40961 ''-a'' \<noteq> []" by simp
  have ok: "prologue_ok (alloc caller_world)"
    by (simp add: prologue_ok_def caller_world_def alloc_ok_def alloc_next_def)
  have t: "\<forall>t\<in>set (replicate 40961 ''-a'').
             c_at t 0 = CHR ''-'' \<and> \<not> (c_at t 1 = CHR ''-'' \<and> c_at t 2 = CHR 0x00)"
    by (simp add: c_at_def)
  have p: "False \<notin> set (plan (alloc (entry_world 5 ''prog'' caller_world)))"
    by (simp add: entry_world_def caller_world_def alloc_next_def)
  have "cli_parse 5 (''prog'' # replicate 40961 ''-a'') caller_world =
          cli_parse_loop (replicate 40961 ''-a'' @ []) False (entry_world 5 ''prog'' caller_world)"
    using cli_parse_entry [OF ne ok] by simp
  also have "\<dots> = Undefined"
    unfolding loop_program_options [OF t]
    using run_40961 [OF p, of "''-a''"] by (simp add: entry_world_def)
  finally show ?thesis .
qed

lemma heap_40961_positionals:
  "cli_parse 5 (''prog'' # replicate 40961 ''a'') caller_world = Undefined"
proof -
  have ne: "replicate 40961 ''a'' \<noteq> []" by simp
  have ok: "prologue_ok (alloc caller_world)"
    by (simp add: prologue_ok_def caller_world_def alloc_ok_def alloc_next_def)
  have t: "\<forall>t\<in>set (replicate 40961 ''a''). c_at t 0 \<noteq> CHR ''-''"
    by (simp add: c_at_def)
  have c: "\<not> 0 < length_f (cmd_options (cli (entry_world 5 ''prog'' caller_world)))"
    by (simp add: entry_world_def fresh_array_def)
  have p: "False \<notin> set (plan (alloc (entry_world 5 ''prog'' caller_world)))"
    by (simp add: entry_world_def caller_world_def alloc_next_def)
  have "cli_parse 5 (''prog'' # replicate 40961 ''a'') caller_world =
          cli_parse_loop (replicate 40961 ''a'' @ []) False (entry_world 5 ''prog'' caller_world)"
    using cli_parse_entry [OF ne ok] by simp
  also have "\<dots> = Undefined"
    unfolding loop_args [OF t c]
    using run_40961 [OF p, of "''a''"] by (simp add: entry_world_def)
  finally show ?thesis .
qed

section \<open>The arena build: runs of equal tokens\<close>

lemma cli_parse_noheap_entry:
  assumes "rest \<noteq> []"
  shows "cli_parse_noheap (exe # rest) w (Some mem) =
           cli_parse_loop_nh rest False (entry_world_nh exe w mem)"
  using assms
  by (simp add: cli_parse_noheap_def cli_parse_nh_def cli_pop_argv_def obind_def
        cli_da_init_nh_def Let_def entry_world_nh_def fresh_array_nh_def)

lemma nh_run_args:
  assumes "c_at t 0 \<noteq> CHR ''-''"
  shows "next_unused (args_nh (cli_nh w)) = Unused \<Longrightarrow>
     \<not> 0 < length_nh (cmd_options_nh (cli_nh w)) \<Longrightarrow>
     unused w + n \<le> length (arena w) \<Longrightarrow>
     \<exists>w'. cli_parse_loop_nh (replicate n t @ rest) b w = cli_parse_loop_nh rest (b \<or> 0 < n) w' \<and>
       length_nh (args_nh (cli_nh w')) = length_nh (args_nh (cli_nh w)) + of_nat n \<and>
       unused w' = unused w + n \<and> length (arena w') = length (arena w) \<and>
       cmd_options_nh (cli_nh w') = cmd_options_nh (cli_nh w) \<and>
       program_options_nh (cli_nh w') = program_options_nh (cli_nh w) \<and>
       next_unused (args_nh (cli_nh w')) = Unused \<and>
       stderr_nh w' = stderr_nh w \<and> execfile_nh (cli_nh w') = execfile_nh (cli_nh w)"
proof (induction n arbitrary: w b)
  case 0
  then show ?case by (intro exI [of _ w]) simp
next
  case (Suc n)
  define a1 where "a1 = (if data_nh (args_nh (cli_nh w)) = CLI_INVALID_PTR
       then (args_nh (cli_nh w))\<lparr>data_nh := Slot (unused w)\<rparr> else args_nh (cli_nh w))"
  define w1 where "w1 = w\<lparr>cli_nh := (cli_nh w)\<lparr>args_nh := a1\<lparr>length_nh := length_nh a1 + 1\<rparr>\<rparr>,
       arena := (arena w)[unused w := Some t], unused := unused w + 1\<rparr>"
  have lt: "\<not> length (arena w) \<le> unused w" using Suc.prems(3) by simp
  have s: "cli_parse_step_nh t b w = Returns (Continue_nh True w1)"
    using assms Suc.prems(1,2) lt
    by (simp add: cli_parse_step_nh_def cli_da_append_nh_def obind_def Let_def w1_def a1_def)
  have p: "next_unused (args_nh (cli_nh w1)) = Unused"
     "\<not> 0 < length_nh (cmd_options_nh (cli_nh w1))" "unused w1 + n \<le> length (arena w1)"
    using Suc.prems by (simp_all add: w1_def a1_def)
  from Suc.IH [OF p, of True] obtain w' where
    w': "cli_parse_loop_nh (replicate n t @ rest) True w1 = cli_parse_loop_nh rest (True \<or> 0 < n) w'"
      "length_nh (args_nh (cli_nh w')) = length_nh (args_nh (cli_nh w1)) + of_nat n"
      "unused w' = unused w1 + n" "length (arena w') = length (arena w1)"
      "cmd_options_nh (cli_nh w') = cmd_options_nh (cli_nh w1)"
      "program_options_nh (cli_nh w') = program_options_nh (cli_nh w1)"
      "next_unused (args_nh (cli_nh w')) = Unused"
      "stderr_nh w' = stderr_nh w1" "execfile_nh (cli_nh w') = execfile_nh (cli_nh w1)"
    by blast
  have l1: "length_nh (args_nh (cli_nh w1)) = length_nh (args_nh (cli_nh w)) + 1"
    by (simp add: w1_def a1_def)
  show ?case
    using w' s l1 by (intro exI [of _ w']) (simp add: w1_def)
qed

lemma nh_run_cmd:
  assumes "c_at t 0 = CHR ''-''" "\<not> (c_at t 1 = CHR ''-'' \<and> c_at t 2 = CHR 0x00)"
  shows "next_unused (cmd_options_nh (cli_nh w)) = Unused \<Longrightarrow>
     unused w + n \<le> length (arena w) \<Longrightarrow>
     \<exists>w'. cli_parse_loop_nh (replicate n t @ rest) True w = cli_parse_loop_nh rest True w' \<and>
       length_nh (cmd_options_nh (cli_nh w')) = length_nh (cmd_options_nh (cli_nh w)) + of_nat n \<and>
       unused w' = unused w + n \<and> length (arena w') = length (arena w) \<and>
       args_nh (cli_nh w') = args_nh (cli_nh w) \<and>
       program_options_nh (cli_nh w') = program_options_nh (cli_nh w) \<and>
       next_unused (cmd_options_nh (cli_nh w')) = Unused \<and>
       stderr_nh w' = stderr_nh w \<and> execfile_nh (cli_nh w') = execfile_nh (cli_nh w)"
proof (induction n arbitrary: w)
  case 0
  then show ?case by (intro exI [of _ w]) simp
next
  case (Suc n)
  define a1 where "a1 = (if data_nh (cmd_options_nh (cli_nh w)) = CLI_INVALID_PTR
       then (cmd_options_nh (cli_nh w))\<lparr>data_nh := Slot (unused w)\<rparr> else cmd_options_nh (cli_nh w))"
  define w1 where "w1 = w\<lparr>cli_nh := (cli_nh w)\<lparr>cmd_options_nh := a1\<lparr>length_nh := length_nh a1 + 1\<rparr>\<rparr>,
       arena := (arena w)[unused w := Some t], unused := unused w + 1\<rparr>"
  have lt: "\<not> length (arena w) \<le> unused w" using Suc.prems(2) by simp
  have s: "cli_parse_step_nh t True w = Returns (Continue_nh True w1)"
    using assms Suc.prems(1) lt
    by (auto simp add: cli_parse_step_nh_def cli_da_append_nh_def obind_def Let_def w1_def a1_def
             simp del: One_nat_def)
  have p: "next_unused (cmd_options_nh (cli_nh w1)) = Unused" "unused w1 + n \<le> length (arena w1)"
    using Suc.prems by (simp_all add: w1_def a1_def)
  from Suc.IH [OF p] obtain w' where
    w': "cli_parse_loop_nh (replicate n t @ rest) True w1 = cli_parse_loop_nh rest True w'"
      "length_nh (cmd_options_nh (cli_nh w')) = length_nh (cmd_options_nh (cli_nh w1)) + of_nat n"
      "unused w' = unused w1 + n" "length (arena w') = length (arena w1)"
      "args_nh (cli_nh w') = args_nh (cli_nh w1)"
      "program_options_nh (cli_nh w') = program_options_nh (cli_nh w1)"
      "next_unused (cmd_options_nh (cli_nh w')) = Unused"
      "stderr_nh w' = stderr_nh w1" "execfile_nh (cli_nh w') = execfile_nh (cli_nh w1)"
    by blast
  have l1: "length_nh (cmd_options_nh (cli_nh w1)) = length_nh (cmd_options_nh (cli_nh w)) + 1"
    by (simp add: w1_def a1_def)
  show ?case
    using w' s l1 by (intro exI [of _ w']) (simp add: w1_def)
qed

lemma nh_run_prog:
  assumes "c_at t 0 = CHR ''-''" "\<not> (c_at t 1 = CHR ''-'' \<and> c_at t 2 = CHR 0x00)"
  shows "next_unused (program_options_nh (cli_nh w)) = Unused \<Longrightarrow>
     unused w + n \<le> length (arena w) \<Longrightarrow>
     \<exists>w'. cli_parse_loop_nh (replicate n t @ rest) False w = cli_parse_loop_nh rest False w' \<and>
       length_nh (program_options_nh (cli_nh w')) =
          length_nh (program_options_nh (cli_nh w)) + of_nat n \<and>
       unused w' = unused w + n \<and> length (arena w') = length (arena w) \<and>
       args_nh (cli_nh w') = args_nh (cli_nh w) \<and>
       cmd_options_nh (cli_nh w') = cmd_options_nh (cli_nh w) \<and>
       next_unused (program_options_nh (cli_nh w')) = Unused \<and>
       stderr_nh w' = stderr_nh w \<and> execfile_nh (cli_nh w') = execfile_nh (cli_nh w)"
proof (induction n arbitrary: w)
  case 0
  then show ?case by (intro exI [of _ w]) simp
next
  case (Suc n)
  define a1 where "a1 = (if data_nh (program_options_nh (cli_nh w)) = CLI_INVALID_PTR
       then (program_options_nh (cli_nh w))\<lparr>data_nh := Slot (unused w)\<rparr>
       else program_options_nh (cli_nh w))"
  define w1 where "w1 = w\<lparr>cli_nh := (cli_nh w)\<lparr>program_options_nh := a1\<lparr>length_nh := length_nh a1 + 1\<rparr>\<rparr>,
       arena := (arena w)[unused w := Some t], unused := unused w + 1\<rparr>"
  have lt: "\<not> length (arena w) \<le> unused w" using Suc.prems(2) by simp
  have s: "cli_parse_step_nh t False w = Returns (Continue_nh False w1)"
    using assms Suc.prems(1) lt
    by (auto simp add: cli_parse_step_nh_def cli_da_append_nh_def obind_def Let_def w1_def a1_def
             simp del: One_nat_def)
  have p: "next_unused (program_options_nh (cli_nh w1)) = Unused" "unused w1 + n \<le> length (arena w1)"
    using Suc.prems by (simp_all add: w1_def a1_def)
  from Suc.IH [OF p] obtain w' where
    w': "cli_parse_loop_nh (replicate n t @ rest) False w1 = cli_parse_loop_nh rest False w'"
      "length_nh (program_options_nh (cli_nh w')) = length_nh (program_options_nh (cli_nh w1)) + of_nat n"
      "unused w' = unused w1 + n" "length (arena w') = length (arena w1)"
      "args_nh (cli_nh w') = args_nh (cli_nh w1)"
      "cmd_options_nh (cli_nh w') = cmd_options_nh (cli_nh w1)"
      "next_unused (program_options_nh (cli_nh w')) = Unused"
      "stderr_nh w' = stderr_nh w1" "execfile_nh (cli_nh w') = execfile_nh (cli_nh w1)"
    by blast
  have l1: "length_nh (program_options_nh (cli_nh w1)) = length_nh (program_options_nh (cli_nh w)) + 1"
    by (simp add: w1_def a1_def)
  show ?case
    using w' s l1 by (intro exI [of _ w']) (simp add: w1_def)
qed

lemma wrap_65536: "(of_nat 65536 :: 16 word) = 0"
  by simp

lemma nh_step_sep_accepted:
  "\<not> 0 < length_nh (args_nh (cli_nh w)) \<Longrightarrow>
     cli_parse_step_nh ''--'' b w = Returns (Continue_nh True w)"
  by (simp add: cli_parse_step_nh_def c_at_def)

lemma da_list_nh_empty: "length_nh a = 0 \<Longrightarrow> da_list_nh a mem = []"
  by (simp add: da_list_nh_def split: ptr.splits)

section \<open>Vectors that wrap the 16-bit counters\<close>

lemma entry_nh_facts:
  fixes mem :: buffer
  defines "E \<equiv> entry_world_nh ''prog'' caller_world_nh mem"
  shows "next_unused (args_nh (cli_nh E)) = Unused"
    and "next_unused (cmd_options_nh (cli_nh E)) = Unused"
    and "next_unused (program_options_nh (cli_nh E)) = Unused"
    and "length_nh (args_nh (cli_nh E)) = 0"
    and "length_nh (cmd_options_nh (cli_nh E)) = 0"
    and "length_nh (program_options_nh (cli_nh E)) = 0"
    and "unused E = 0" and "length (arena E) = length mem" and "stderr_nh E = []"
  by (simp_all add: E_def entry_world_nh_def fresh_array_nh_def caller_world_nh_def)

lemma dash_a: "c_at ''-a'' 0 = CHR ''-''" "\<not> (c_at ''-a'' 1 = CHR ''-'' \<and> c_at ''-a'' 2 = CHR 0x00)"
  by (simp_all add: c_at_def)

lemma dash_x: "c_at ''-x'' 0 = CHR ''-''" "\<not> (c_at ''-x'' 1 = CHR ''-'' \<and> c_at ''-x'' 2 = CHR 0x00)"
  by (simp_all add: c_at_def)

lemma plain_a: "c_at ''a'' 0 \<noteq> CHR ''-''"
  by (simp add: c_at_def)

lemma plain_x: "c_at ''x'' 0 \<noteq> CHR ''-''"
  by (simp add: c_at_def)

lemma nh_args_65536:
  assumes "65536 \<le> length mem"
  shows "\<exists>w'. cli_parse_noheap (''prog'' # replicate 65536 ''a'' @ rest) caller_world_nh (Some mem)
            = cli_parse_loop_nh rest True w' \<and>
          length_nh (args_nh (cli_nh w')) = 0 \<and> unused w' = 65536 \<and>
          length (arena w') = length mem \<and>
          length_nh (cmd_options_nh (cli_nh w')) = 0 \<and>
          length_nh (program_options_nh (cli_nh w')) = 0 \<and>
          next_unused (cmd_options_nh (cli_nh w')) = Unused \<and> stderr_nh w' = []"
proof -
  let ?E = "entry_world_nh ''prog'' caller_world_nh mem"
  have ne: "replicate 65536 ''a'' @ rest \<noteq> []" by simp
  have c: "\<not> 0 < length_nh (cmd_options_nh (cli_nh ?E))" by (simp add: entry_nh_facts)
  have r: "unused ?E + 65536 \<le> length (arena ?E)" using assms by (simp add: entry_nh_facts)
  from nh_run_args [OF plain_a entry_nh_facts(1) c r, of rest False] obtain w' where
    w': "cli_parse_loop_nh (replicate 65536 ''a'' @ rest) False ?E =
           cli_parse_loop_nh rest (False \<or> (0::nat) < 65536) w'"
       "length_nh (args_nh (cli_nh w')) = length_nh (args_nh (cli_nh ?E)) + of_nat 65536"
       "unused w' = unused ?E + 65536" "length (arena w') = length (arena ?E)"
       "cmd_options_nh (cli_nh w') = cmd_options_nh (cli_nh ?E)"
       "program_options_nh (cli_nh w') = program_options_nh (cli_nh ?E)"
       "stderr_nh w' = stderr_nh ?E"
    by blast
  have l: "length_nh (args_nh (cli_nh w')) = 0"
    unfolding w'(2) entry_nh_facts(4) by simp
  show ?thesis
    using w' l cli_parse_noheap_entry [OF ne, of "''prog''" caller_world_nh mem]
    by (intro exI [of _ w']) (simp add: entry_nh_facts)
qed

lemma nh_prog_65536:
  assumes "65536 \<le> length mem"
  shows "\<exists>w'. cli_parse_noheap (''prog'' # replicate 65536 ''-a'' @ rest) caller_world_nh (Some mem)
            = cli_parse_loop_nh rest False w' \<and>
          length_nh (program_options_nh (cli_nh w')) = 0 \<and> unused w' = 65536 \<and>
          length (arena w') = length mem \<and>
          length_nh (cmd_options_nh (cli_nh w')) = 0 \<and>
          length_nh (args_nh (cli_nh w')) = 0 \<and> stderr_nh w' = []"
proof -
  let ?E = "entry_world_nh ''prog'' caller_world_nh mem"
  have ne: "replicate 65536 ''-a'' @ rest \<noteq> []" by simp
  have r: "unused ?E + 65536 \<le> length (arena ?E)" using assms by (simp add: entry_nh_facts)
  from nh_run_prog [OF dash_a entry_nh_facts(3) r, of rest] obtain w' where
    w': "cli_parse_loop_nh (replicate 65536 ''-a'' @ rest) False ?E = cli_parse_loop_nh rest False w'"
       "length_nh (program_options_nh (cli_nh w')) =
          length_nh (program_options_nh (cli_nh ?E)) + of_nat 65536"
       "unused w' = unused ?E + 65536" "length (arena w') = length (arena ?E)"
       "args_nh (cli_nh w') = args_nh (cli_nh ?E)"
       "cmd_options_nh (cli_nh w') = cmd_options_nh (cli_nh ?E)"
       "stderr_nh w' = stderr_nh ?E"
    by blast
  have l: "length_nh (program_options_nh (cli_nh w')) = 0"
    unfolding w'(2) entry_nh_facts(6) by simp
  show ?thesis
    using w' l cli_parse_noheap_entry [OF ne, of "''prog''" caller_world_nh mem]
    by (intro exI [of _ w']) (simp add: entry_nh_facts)
qed

text \<open>
  Claim C1 at an input where the code departs from it.  In the arena build the length of
  \<open>args\<close> is an \<open>unsigned short\<close> that \<open>cli_da_append\<close> increments unchecked:
  after 65536 positional arguments it is 0 again, the test \<open>args.length > 0\<close> fails,
  and the separator that follows is accepted.  The parse returns \<open>CliErrorOk\<close> and
  prints nothing.
\<close>

theorem noheap_double_dash_accepted:
  "\<exists>w. cli_parse_noheap (''prog'' # replicate 65536 ''a'' @ [''--'']) caller_world_nh
           (Some (replicate 65537 None)) = Returns (CliErrorOk, w) \<and>
        unused w = 65536 \<and> length_nh (args_nh (cli_nh w)) = 0 \<and> stderr_nh w = []"
proof -
  from nh_args_65536 [of "replicate 65537 None" "[''--'']"] obtain w' where
    w': "cli_parse_noheap (''prog'' # replicate 65536 ''a'' @ [''--'']) caller_world_nh
           (Some (replicate 65537 None)) = cli_parse_loop_nh [''--''] True w'"
      "length_nh (args_nh (cli_nh w')) = 0" "unused w' = 65536" "stderr_nh w' = []"
    by auto
  have "cli_parse_step_nh ''--'' True w' = Returns (Continue_nh True w')"
    using nh_step_sep_accepted [of w' True] w'(2) by simp
  then have "cli_parse_loop_nh [''--''] True w' = Returns (CliErrorOk, w')" by simp
  with w' show ?thesis by (intro exI [of _ w']) simp
qed

text \<open>
  Claim C4 at an input where the code departs from it.  In the arena build, after 65536
  positional arguments the parse returns \<open>CliErrorOk\<close> with the length of \<open>args\<close>
  wrapped to 0: the three lists, read from their length fields, are empty and so are no
  permutation of the 65536 tokens of the input.
\<close>

theorem noheap_lists_lose_tokens:
  "\<exists>w. cli_parse_noheap (''prog'' # replicate 65536 ''a'') caller_world_nh
           (Some (replicate 65536 None)) = Returns (CliErrorOk, w) \<and>
        cli_concat_nh w = [] \<and>
        mset (cli_concat_nh w) \<noteq> mset (filter (\<lambda>t. t \<noteq> ''--'') (replicate 65536 ''a''))"
proof -
  from nh_args_65536 [of "replicate 65536 None" "[]"] obtain w' where
    w': "cli_parse_noheap (''prog'' # replicate 65536 ''a'') caller_world_nh
           (Some (replicate 65536 None)) = cli_parse_loop_nh [] True w'"
      "length_nh (args_nh (cli_nh w')) = 0" "length_nh (cmd_options_nh (cli_nh w')) = 0"
      "length_nh (program_options_nh (cli_nh w')) = 0"
    by auto
  have c: "cli_concat_nh w' = []"
    using w'(2,3,4) by (simp add: cli_concat_nh_def da_list_nh_empty)
  have "''a'' \<in> set (filter (\<lambda>t. t \<noteq> ''--'') (replicate 65536 ''a''))" by simp
  then have "mset (filter (\<lambda>t. t \<noteq> ''--'') (replicate 65536 ''a'')) \<noteq> {#}"
    by (metis empty_iff mset_zero_iff set_empty)
  with w'(1) c show ?thesis by (intro exI [of _ w']) simp
qed

text \<open>
  Claim C7 at an input where the code departs from it.  In the arena build, after 65536
  positional arguments the separator is not detected: the parse does not return at the
  offending token, it goes on, records the option that follows in \<open>cmd_options\<close>,
  and returns \<open>CliErrorOk\<close> with nothing printed.
\<close>

theorem noheap_violation_runs_on:
  "\<exists>w. cli_parse_noheap (''prog'' # replicate 65536 ''a'' @ [''--'', ''-x'']) caller_world_nh
           (Some (replicate 65538 None)) = Returns (CliErrorOk, w) \<and>
        length_nh (cmd_options_nh (cli_nh w)) = 1 \<and> unused w = 65537 \<and> stderr_nh w = []"
proof -
  from nh_args_65536 [of "replicate 65538 None" "[''--'', ''-x'']"] obtain w' where
    w': "cli_parse_noheap (''prog'' # replicate 65536 ''a'' @ [''--'', ''-x'']) caller_world_nh
           (Some (replicate 65538 None)) = cli_parse_loop_nh [''--'', ''-x''] True w'"
      "length_nh (args_nh (cli_nh w')) = 0" "unused w' = 65536" "length (arena w') = 65538"
      "length_nh (cmd_options_nh (cli_nh w')) = 0"
      "next_unused (cmd_options_nh (cli_nh w')) = Unused" "stderr_nh w' = []"
    by auto
  have s: "cli_parse_step_nh ''--'' True w' = Returns (Continue_nh True w')"
    using nh_step_sep_accepted [of w' True] w'(2) by simp
  have r: "unused w' + 1 \<le> length (arena w')" using w'(3,4) by simp
  from nh_run_cmd [OF dash_x w'(6) r, of "[]"] obtain w2 where
    w2: "cli_parse_loop_nh (replicate 1 ''-x'' @ []) True w' = cli_parse_loop_nh [] True w2"
      "length_nh (cmd_options_nh (cli_nh w2)) = length_nh (cmd_options_nh (cli_nh w')) + of_nat 1"
      "unused w2 = unused w' + 1" "stderr_nh w2 = stderr_nh w'"
    by blast
  have "cli_parse_loop_nh [''--'', ''-x''] True w' = cli_parse_loop_nh [''-x''] True w'"
    using s by simp
  also have "\<dots> = Returns (CliErrorOk, w2)" using w2(1) by simp
  finally show ?thesis using w' w2 by (intro exI [of _ w2]) simp
qed

text \<open>
  Claim C2 at two inputs where the code departs from it.  In the arena build, after the
  separator and 65536 command options the length of \<open>cmd_options\<close> has wrapped to 0,
  and the positional argument that follows is accepted: \<open>CliErrorOk\<close>, nothing
  printed.  In the heap build with the default capacity 5, the 40961st positional argument
  is not appended: the capacity 40960 doubles to 16384 in 16 bits, the block shrinks, and
  the write of \<open>data[40960]\<close> is outside it.
\<close>

theorem positional_accepted_or_undefined:
  "(\<exists>w. cli_parse_noheap (''prog'' # ''--'' # replicate 65536 ''-a'' @ [''x'']) caller_world_nh
           (Some (replicate 65538 None)) = Returns (CliErrorOk, w) \<and>
         length_nh (args_nh (cli_nh w)) = 1 \<and> unused w = 65537 \<and> stderr_nh w = []) \<and>
   cli_parse 5 (''prog'' # replicate 40961 ''a'') caller_world = Undefined"
proof
  let ?mem = "replicate 65538 None :: buffer"
  let ?E = "entry_world_nh ''prog'' caller_world_nh ?mem"
  have ne: "''--'' # replicate 65536 ''-a'' @ [''x''] \<noteq> []" by simp
  have s: "cli_parse_step_nh ''--'' False ?E = Returns (Continue_nh True ?E)"
    using nh_step_sep_accepted [of ?E False] by (simp add: entry_nh_facts)
  have r: "unused ?E + 65536 \<le> length (arena ?E)" by (simp add: entry_nh_facts)
  from nh_run_cmd [OF dash_a entry_nh_facts(2) r, of "[''x'']"] obtain w1 where
    w1: "cli_parse_loop_nh (replicate 65536 ''-a'' @ [''x'']) True ?E = cli_parse_loop_nh [''x''] True w1"
      "length_nh (cmd_options_nh (cli_nh w1)) = length_nh (cmd_options_nh (cli_nh ?E)) + of_nat 65536"
      "unused w1 = unused ?E + 65536" "length (arena w1) = length (arena ?E)"
      "args_nh (cli_nh w1) = args_nh (cli_nh ?E)" "stderr_nh w1 = stderr_nh ?E"
    by blast
  have c: "\<not> 0 < length_nh (cmd_options_nh (cli_nh w1))"
    unfolding w1(2) entry_nh_facts(5) by simp
  have a: "next_unused (args_nh (cli_nh w1)) = Unused" unfolding w1(5) by (rule entry_nh_facts(1))
  have r1: "unused w1 + 1 \<le> length (arena w1)" unfolding w1(3,4) by (simp add: entry_nh_facts)
  from nh_run_args [OF plain_x a c r1, of "[]" True] obtain w2 where
    w2: "cli_parse_loop_nh (replicate 1 ''x'' @ []) True w1 = cli_parse_loop_nh [] (True \<or> (0::nat) < 1) w2"
      "length_nh (args_nh (cli_nh w2)) = length_nh (args_nh (cli_nh w1)) + of_nat 1"
      "unused w2 = unused w1 + 1" "stderr_nh w2 = stderr_nh w1"
    by blast
  have "cli_parse_noheap (''prog'' # ''--'' # replicate 65536 ''-a'' @ [''x'']) caller_world_nh (Some ?mem)
          = cli_parse_loop_nh (''--'' # replicate 65536 ''-a'' @ [''x'']) False ?E"
    by (rule cli_parse_noheap_entry [OF ne])
  also have "\<dots> = cli_parse_loop_nh (replicate 65536 ''-a'' @ [''x'']) True ?E" using s by simp
  also have "\<dots> = cli_parse_loop_nh [''x''] True w1" by (rule w1(1))
  also have "\<dots> = Returns (CliErrorOk, w2)" using w2(1) by simp
  finally show "\<exists>w. cli_parse_noheap (''prog'' # ''--'' # replicate 65536 ''-a'' @ [''x''])
           caller_world_nh (Some ?mem) = Returns (CliErrorOk, w) \<and>
         length_nh (args_nh (cli_nh w)) = 1 \<and> unused w = 65537 \<and> stderr_nh w = []"
    using w1 w2 by (intro exI [of _ w2]) (simp add: entry_nh_facts)
next
  show "cli_parse 5 (''prog'' # replicate 40961 ''a'') caller_world = Undefined"
    by (rule heap_40961_positionals)
qed

text \<open>
  Claim C3 at two inputs where the code departs from it.  In the heap build with the
  default capacity 5, the 40961st option token is not appended: the capacity 40960
  doubles to 16384 in 16 bits, the block shrinks, and the write of \<open>data[40960]\<close> is
  outside it.  In the arena build, after 65536 option tokens the length of
  \<open>program_options\<close> has wrapped to 0 and the list reads back empty.
\<close>

theorem option_not_appended:
  "cli_parse 5 (''prog'' # replicate 40961 ''-a'') caller_world = Undefined \<and>
   (\<exists>w. cli_parse_noheap (''prog'' # replicate 65536 ''-a'') caller_world_nh
           (Some (replicate 65536 None)) = Returns (CliErrorOk, w) \<and>
         da_list_nh (program_options_nh (cli_nh w)) (arena w) = [] \<and>
         da_list_nh (cmd_options_nh (cli_nh w)) (arena w) = [])"
proof
  show "cli_parse 5 (''prog'' # replicate 40961 ''-a'') caller_world = Undefined"
    by (rule heap_40961_options)
next
  from nh_prog_65536 [of "replicate 65536 None" "[]"] obtain w' where
    w': "cli_parse_noheap (''prog'' # replicate 65536 ''-a'') caller_world_nh
           (Some (replicate 65536 None)) = cli_parse_loop_nh [] False w'"
      "length_nh (program_options_nh (cli_nh w')) = 0" "length_nh (cmd_options_nh (cli_nh w')) = 0"
    by auto
  then show "\<exists>w. cli_parse_noheap (''prog'' # replicate 65536 ''-a'') caller_world_nh
           (Some (replicate 65536 None)) = Returns (CliErrorOk, w) \<and>
         da_list_nh (program_options_nh (cli_nh w)) (arena w) = [] \<and>
         da_list_nh (cmd_options_nh (cli_nh w)) (arena w) = []"
    by (intro exI [of _ w']) (simp add: da_list_nh_empty)
qed


end
